theory Spec2Isabelle
  imports Main "HOL-Library.Word"
begin

unbundle bit_operations_syntax

section \<open>Fee engine (sdk utils: calculateFees, calculatePotentialWinnings)\<close>

text \<open>
  Amounts are \<^verbatim>\<open>BN\<close> values (bn.js): signed integers of unbounded size, modelled as
  \<^typ>\<open>int\<close>. A \<^verbatim>\<open>number\<close> argument is first converted with \<^verbatim>\<open>new BN(amount)\<close>, so the
  model takes the converted value. The basis-point arguments are JavaScript numbers that
  are converted with \<^verbatim>\<open>new BN(bps)\<close> as well.

  \<^verbatim>\<open>BN.div\<close> divides the magnitudes and fixes the sign afterwards, so the quotient is
  rounded toward zero; HOL's \<open>div\<close> on \<^typ>\<open>int\<close> rounds toward minus infinity.
  \<^verbatim>\<open>BN.div\<close> refuses a zero divisor; both call sites below divide by a value that is
  known not to be zero (the constant 10000, and a total guarded by \<^verbatim>\<open>isZero()\<close>).
\<close>

definition bn_div :: "int \<Rightarrow> int \<Rightarrow> int" where
  "bn_div a b =
     (if a < 0 \<and> \<not> b < 0 then - ((- a) div b)
      else if \<not> a < 0 \<and> b < 0 then - (a div (- b))
      else if a < 0 \<and> b < 0 then (- a) div (- b)
      else a div b)"

definition BPS_DENOMINATOR :: int where
  "BPS_DENOMINATOR = 10000"

definition MAX_TOTAL_FEE_BPS :: int where
  "MAX_TOTAL_FEE_BPS = 1000"

record FeeBreakdown =
  poolFee :: int
  creatorFee :: int
  protocolFee :: int
  netAmount :: int
  totalFees :: int

definition calculateFees :: "int \<Rightarrow> int \<Rightarrow> int \<Rightarrow> int \<Rightarrow> FeeBreakdown" where
  "calculateFees amount protocolFeeBps creatorFeeBps poolFeeBps =
     (let poolFee' = bn_div (amount * poolFeeBps) BPS_DENOMINATOR;
          creatorFee' = bn_div (amount * creatorFeeBps) BPS_DENOMINATOR;
          protocolFee' = bn_div (amount * protocolFeeBps) BPS_DENOMINATOR;
          totalFees' = poolFee' + creatorFee' + protocolFee';
          netAmount' = amount - totalFees'
      in \<lparr> poolFee = poolFee', creatorFee = creatorFee', protocolFee = protocolFee',
           netAmount = netAmount', totalFees = totalFees' \<rparr>)"

definition calculatePotentialWinnings ::
  "int \<Rightarrow> int \<Rightarrow> int \<Rightarrow> int \<Rightarrow> int \<Rightarrow> int \<Rightarrow> int \<Rightarrow> int" where
  "calculatePotentialWinnings betAmount currentOutcomeTotal totalPool bonusPool
       protocolFeeBps creatorFeeBps poolFeeBps =
     (let fees = calculateFees betAmount protocolFeeBps creatorFeeBps poolFeeBps;
          newOutcomeTotal = currentOutcomeTotal + netAmount fees;
          totalDistributable = totalPool + bonusPool + netAmount fees
      in if newOutcomeTotal = 0 then totalDistributable
         else bn_div (netAmount fees * totalDistributable) newOutcomeTotal)"

section \<open>Amount formatting (sdk utils: formatAmount, parseAmount)\<close>

text \<open>
  JavaScript strings are modelled as \<^typ>\<open>string\<close>; every string that occurs here is
  ASCII. \<^verbatim>\<open>decimals\<close> is a number of digits, a natural number. \<open>parseAmount\<close> is
  modelled on its string argument (a number argument is printed first). \<open>padStart\<close>, \<open>padEnd\<close>, \<open>slice_str\<close> (\<^verbatim>\<open>slice\<close>) and \<open>split_str\<close> (\<^verbatim>\<open>split\<close>) follow ECMAScript:
  a negative index of \<^verbatim>\<open>slice\<close> counts from the end, and \<^verbatim>\<open>-0\<close> is the index 0.
\<close>

definition padStart :: "string \<Rightarrow> nat \<Rightarrow> char \<Rightarrow> string" where
  "padStart s n c = replicate (n - length s) c @ s"

definition padEnd :: "string \<Rightarrow> nat \<Rightarrow> char \<Rightarrow> string" where
  "padEnd s n c = s @ replicate (n - length s) c"

definition slice_str :: "string \<Rightarrow> int \<Rightarrow> int option \<Rightarrow> string" where
  "slice_str s start fin =
     (let len = int (length s);
          lo = (if start < 0 then max (len + start) 0 else min start len);
          hi = (case fin of None \<Rightarrow> len
                | Some e \<Rightarrow> if e < 0 then max (len + e) 0 else min e len)
      in take (nat (hi - lo)) (drop (nat lo) s))"

fun split_str :: "char \<Rightarrow> string \<Rightarrow> string list" where
  "split_str sep [] = [[]]"
| "split_str sep (c # cs) =
     (if c = sep then [] # split_str sep cs
      else (case split_str sep cs of [] \<Rightarrow> [[c]] | w # ws \<Rightarrow> (c # w) # ws))"

text \<open>
  \<^verbatim>\<open>BN.toString()\<close> prints base 10 without leading zeros, with a minus sign for a
  negative value. \<^verbatim>\<open>new BN(str)\<close> reads an optional minus sign and decimal digits;
  the empty string reads as 0. A string with any other character is outside the model
  (bn.js strips white space and rejects the rest): the model returns \<open>None\<close>.
\<close>

definition digit_char :: "nat \<Rightarrow> char" where
  "digit_char d = ''0123456789'' ! d"

definition digit_of :: "char \<Rightarrow> nat option" where
  "digit_of c = (let k = (of_char c :: nat) in if 48 \<le> k \<and> k \<le> 57 then Some (k - 48) else None)"

fun nat_digits :: "nat \<Rightarrow> string" where
  "nat_digits n = (if n < 10 then [digit_char n] else nat_digits (n div 10) @ [digit_char (n mod 10)])"

declare nat_digits.simps [simp del]

definition bn_toString :: "int \<Rightarrow> string" where
  "bn_toString a = (if a < 0 then CHR ''-'' # nat_digits (nat (- a)) else nat_digits (nat a))"

fun parse_digits :: "nat \<Rightarrow> string \<Rightarrow> nat option" where
  "parse_digits acc [] = Some acc"
| "parse_digits acc (c # cs) =
     (case digit_of c of None \<Rightarrow> None | Some d \<Rightarrow> parse_digits (10 * acc + d) cs)"

definition bn_of_string :: "string \<Rightarrow> int option" where
  "bn_of_string s =
     (case s of
        [] \<Rightarrow> Some 0
      | c # cs \<Rightarrow>
          if c = CHR ''-'' then map_option (\<lambda>n. - int n) (parse_digits 0 cs)
          else map_option int (parse_digits 0 s))"

definition formatAmount :: "int \<Rightarrow> nat \<Rightarrow> string" where
  "formatAmount amount decimals =
     (let str = padStart (bn_toString amount) (decimals + 1) CHR ''0'';
          intPart = (let p = slice_str str 0 (Some (- int decimals)) in if p = [] then ''0'' else p);
          decPart = slice_str str (- int decimals) None
      in intPart @ ''.'' @ decPart)"

definition parseAmount :: "string \<Rightarrow> nat \<Rightarrow> int option" where
  "parseAmount amount decimals =
     (case split_str CHR ''.'' amount of
        [] \<Rightarrow> None
      | intPart # rest \<Rightarrow>
          (let decPart = (case rest of [] \<Rightarrow> [] | d # _ \<Rightarrow> d);
               paddedDec = slice_str (padEnd decPart decimals CHR ''0'') 0 (Some (int decimals))
           in bn_of_string (intPart @ paddedDec)))"

section \<open>Oracle categories (sdk types: categoriesToBoolArray, boolArrayToCategories)\<close>

text \<open>
  A \<^verbatim>\<open>MarketCategory\<close> is a number at run time (the enum has the values 0 to 11),
  modelled as \<^typ>\<open>int\<close> so that the range test of the source is a real test.
\<close>

definition categoriesToBoolArray :: "int list \<Rightarrow> bool list" where
  "categoriesToBoolArray categories =
     fold (\<lambda>cat result. if 0 \<le> cat \<and> cat < 12 then result[nat cat := True] else result)
       categories (replicate 12 False)"

definition boolArrayToCategories :: "bool list \<Rightarrow> int list" where
  "boolArrayToCategories boolArray =
     map int (filter (\<lambda>i. boolArray ! i) [0..<min (length boolArray) 12])"

section \<open>License keys (sdk utils: generateLicenseKey)\<close>

text \<open>
  A JavaScript string is a sequence of 16-bit code units (UTF-16). \<open>js_string\<close> writes
  the string of a character literal, one code unit per character; it is used for the ASCII
  constants and examples of this theory.
\<close>

type_synonym byte = "8 word"

type_synonym js_string = "16 word list"

definition js_string :: "string \<Rightarrow> js_string" where
  "js_string cs = map of_char cs"

text \<open>
  \<^verbatim>\<open>TextEncoder.encode\<close> belongs to the platform, not to this repository. It is the UTF-8
  encoder of the Encoding standard: the code units are read as code points, a surrogate
  pair as one code point above U+FFFF and every surrogate that is not part of a pair as
  U+FFFD; each code point becomes one to four bytes.
\<close>

definition is_high_surrogate :: "16 word \<Rightarrow> bool" where
  "is_high_surrogate u \<longleftrightarrow> 0xD800 \<le> unat u \<and> unat u \<le> 0xDBFF"

definition is_low_surrogate :: "16 word \<Rightarrow> bool" where
  "is_low_surrogate u \<longleftrightarrow> 0xDC00 \<le> unat u \<and> unat u \<le> 0xDFFF"

definition scalar :: "16 word \<Rightarrow> nat" where
  "scalar u = (if is_high_surrogate u \<or> is_low_surrogate u then 0xFFFD else unat u)"

fun code_points :: "js_string \<Rightarrow> nat list" where
  "code_points [] = []"
| "code_points [u] = [scalar u]"
| "code_points (u # v # us) =
     (if is_high_surrogate u \<and> is_low_surrogate v
      then (0x10000 + (unat u - 0xD800) * 0x400 + (unat v - 0xDC00)) # code_points us
      else scalar u # code_points (v # us))"

definition utf8_bytes :: "nat \<Rightarrow> nat list" where
  "utf8_bytes cp =
     (if cp < 0x80 then [cp]
      else if cp < 0x800 then [0xC0 + cp div 0x40, 0x80 + cp mod 0x40]
      else if cp < 0x10000 then
        [0xE0 + cp div 0x1000, 0x80 + cp div 0x40 mod 0x40, 0x80 + cp mod 0x40]
      else
        [0xF0 + cp div 0x40000, 0x80 + cp div 0x1000 mod 0x40, 0x80 + cp div 0x40 mod 0x40,
         0x80 + cp mod 0x40])"

definition encode :: "js_string \<Rightarrow> byte list" where
  "encode seed = map of_nat (concat (map utf8_bytes (code_points seed)))"

text \<open>
  The key is the \<^verbatim>\<open>Uint8Array\<close> of 32 zero bytes, into which the loop folds the bytes of
  the encoded seed with exclusive or.
\<close>

definition generateLicenseKey :: "js_string \<Rightarrow> byte list" where
  "generateLicenseKey seed =
     (let data = encode seed
      in fold (\<lambda>i hash. hash[i mod 32 := (hash ! (i mod 32)) XOR (data ! i)])
           [0..<length data] (replicate 32 0))"

text \<open>
  Three notions that the properties of the key are stated with: a string is well formed
  when every surrogate in it is part of a pair; \<open>utf16_units\<close> writes a code point as code
  units again; a code point is valid when it is at most U+10FFFF.
\<close>

fun well_formed :: "js_string \<Rightarrow> bool" where
  "well_formed [] = True"
| "well_formed [u] = (\<not> is_high_surrogate u \<and> \<not> is_low_surrogate u)"
| "well_formed (u # v # us) =
     (if is_high_surrogate u then is_low_surrogate v \<and> well_formed us
      else \<not> is_low_surrogate u \<and> well_formed (v # us))"

definition utf16_units :: "nat \<Rightarrow> js_string" where
  "utf16_units cp =
     (if cp < 0x10000 then [of_nat cp]
      else [of_nat (0xD800 + (cp - 0x10000) div 0x400), of_nat (0xDC00 + (cp - 0x10000) mod 0x400)])"

definition valid_cp :: "nat \<Rightarrow> bool" where
  "valid_cp cp \<longleftrightarrow> cp < 0x110000"

section \<open>Address derivation (sdk utils: getBetPDA)\<close>

text \<open>
  A \<^verbatim>\<open>PublicKey\<close> is known by its bytes (\<^verbatim>\<open>toBuffer()\<close>). \<^verbatim>\<open>findProgramAddressSync\<close>
  belongs to the web3 library and is not part of this repository: the functions that call
  it take it as their first argument. It returns an address and a bump seed. The seed
  constants are \<^verbatim>\<open>Buffer.from\<close> of a string, its UTF-8 encoding.
\<close>

type_synonym Buffer = "byte list"

datatype PublicKey = PublicKey (toBuffer: Buffer)

type_synonym findProgramAddress = "Buffer list \<Rightarrow> PublicKey \<Rightarrow> PublicKey \<times> nat"

definition BET_SEED :: Buffer where
  "BET_SEED = encode (js_string ''bet'')"

definition getBetPDA ::
  "findProgramAddress \<Rightarrow> PublicKey \<Rightarrow> PublicKey \<Rightarrow> PublicKey \<Rightarrow> PublicKey \<times> nat" where
  "getBetPDA findProgramAddressSync marketPubkey bettorPubkey programId =
     findProgramAddressSync [BET_SEED, toBuffer marketPubkey, toBuffer bettorPubkey] programId"

section \<open>Account data (sdk types)\<close>

text \<open>
  The records follow the interfaces of \<^verbatim>\<open>types.ts\<close>, without the bump seeds of the
  account addresses. Amounts and time stamps are \<^verbatim>\<open>BN\<close> values. The oracle of a market
  is optional, as the specification has it (field \<^verbatim>\<open>oracle\<close>, here \<open>assignedOracle\<close>;
  the authority of an oracle is \<open>oracleAuthority\<close>).
\<close>

datatype MarketStatus = Open | Resolved | Cancelled

record Outcome =
  label :: string
  totalAmount :: int
  bettorCount :: int

record ProtocolState =
  authority :: PublicKey
  treasury :: PublicKey
  protocolFeeBps :: int
  creatorFeeBps :: int
  poolFeeBps :: int
  totalMarkets :: int
  totalVolume :: int
  totalOracles :: int
  totalLicenses :: int
  requireLicense :: bool

record Oracle =
  oracleId :: int
  oracleAuthority :: PublicKey
  name :: string
  categories :: "bool list"
  dataSource :: string
  isActive :: bool
  marketsResolved :: int
  registeredAt :: int
  lastResolutionAt :: int

record Market =
  marketId :: int
  creator :: PublicKey
  creatorFeeWallet :: PublicKey
  tokenMint :: PublicKey
  category :: nat
  assignedOracle :: "PublicKey option"
  oracleEventId :: string
  title :: string
  description :: string
  betAmount :: int
  bettingDeadline :: int
  resolutionDeadline :: int
  status :: MarketStatus
  winningOutcome :: nat
  totalPool :: int
  bonusPool :: int
  outcomes :: "Outcome list"
  createdAt :: int
  resolvedAt :: int
  resolvedByOracle :: bool

record Bet =
  market :: PublicKey
  bettor :: PublicKey
  outcomeIndex :: nat
  originalAmount :: int
  poolAmount :: int
  claimed :: bool
  placedAt :: int

section \<open>Market accounting (the ledger program)\<close>

text \<open>
  Modelled from the spec: the ledger program itself (\<^verbatim>\<open>programs/fortuna-protocol\<close>, the
  instruction handlers \<^verbatim>\<open>place_bet\<close>, \<^verbatim>\<open>withdraw_bet\<close>, \<^verbatim>\<open>resolve_market\<close>,
  \<^verbatim>\<open>oracle_resolve_market\<close>, \<^verbatim>\<open>cancel_market\<close>, \<^verbatim>\<open>claim_winnings\<close>, \<^verbatim>\<open>claim_refund\<close> and
  \<^verbatim>\<open>assign_oracle\<close>) is missing from the sources; only the client, the account types and
  the integration tests are there. The operations below follow section 4.2 and 4.3 of
  the specification, on the account records of \<^verbatim>\<open>types.ts\<close>, with the fee engine and the
  bet address of the client.

  Every operation takes the ledger, the time of the call (\<open>now\<close>, supplied by the host)
  and the caller, and returns either an error or the new ledger. The conditions of an
  operation are tested in the order in which the specification's description of the
  operation states them. A call that names a record that does not exist is rejected by the
  host; the specification has no name for this, the model calls it \<open>RecordNotFound\<close>.
  Amounts are unsigned: a transfer that a balance cannot cover, or a total that would
  fall below zero, is an error, not a negative number.

  The specification does not say how the payout of \<^verbatim>\<open>claim_winnings\<close> is drawn from the two
  vaults. The model takes the share of the stake pool from the stake vault and the rest of
  the payout from the bonus vault.
\<close>

datatype LedgerError =
    Unauthorized
  | MarketNotOpen
  | MarketNotResolved
  | MarketNotCancelled
  | BettingClosed
  | BettingNotClosed
  | AlreadyClaimed
  | AlreadyBet
  | InvalidOutcome
  | WrongOutcome
  | InsufficientFunds
  | OracleNotAssigned
  | OracleNotFound
  | OracleInactive
  | OracleCategoryMismatch
  | ArithmeticFault
  | RecordNotFound

datatype account = Wallet PublicKey | StakeVault PublicKey | BonusVault PublicKey

record Ledger =
  protocol :: ProtocolState
  markets :: "PublicKey \<rightharpoonup> Market"
  bets :: "PublicKey \<rightharpoonup> Bet"
  oracles :: "PublicKey \<rightharpoonup> Oracle"
  balances :: "account \<Rightarrow> int"

text \<open>
  Modelled from the spec: the abstract \<^verbatim>\<open>transfer(from, to, amount, asset)\<close> of the funds
  movement collaborator (section 6), on one stake asset. The caller checks the balance.
\<close>

definition transfer :: "account \<Rightarrow> account \<Rightarrow> int \<Rightarrow> (account \<Rightarrow> int) \<Rightarrow> (account \<Rightarrow> int)" where
  "transfer src dst amount bal =
     (let bal' = bal(src := bal src - amount) in bal'(dst := bal' dst + amount))"

text \<open>
  The address of the Bet of a bettor on a market: the client's \<open>getBetPDA\<close>, without the
  bump seed.
\<close>

definition bet_address :: "findProgramAddress \<Rightarrow> PublicKey \<Rightarrow> PublicKey \<Rightarrow> PublicKey \<Rightarrow> PublicKey" where
  "bet_address findPDA programId marketKey bettorKey = fst (getBetPDA findPDA marketKey bettorKey programId)"

text \<open>
  Modelled from the spec: \<^verbatim>\<open>place_bet(outcomeIndex)\<close>, section 4.2. Allowed only while the
  status is Open and now < bettingDeadline; the outcome index must be valid; the caller
  must not hold a Bet on this market yet. It moves betAmount from the bettor: protocolFee
  to the treasury, creatorFee to the creator's fee wallet, poolFee to the bonus-pool vault
  (and the bonus pool of the market), netAmount to the stake vault, the outcome's
  totalAmount and the market's totalPool; it increments the outcome's bettorCount and
  records a Bet with originalAmount = betAmount, poolAmount = netAmount, claimed = false.
  It fails with MarketNotOpen, BettingClosed, InvalidOutcome, AlreadyBet, InsufficientFunds.
\<close>

definition place_bet ::
  "findProgramAddress \<Rightarrow> PublicKey \<Rightarrow> Ledger \<Rightarrow> int \<Rightarrow> PublicKey \<Rightarrow> PublicKey \<Rightarrow> nat
     \<Rightarrow> LedgerError + Ledger" where
  "place_bet findPDA programId s now caller marketKey idx =
     (case markets s marketKey of
        None \<Rightarrow> Inl RecordNotFound
      | Some m \<Rightarrow>
          if status m \<noteq> Open then Inl MarketNotOpen
          else if \<not> now < bettingDeadline m then Inl BettingClosed
          else if \<not> idx < length (outcomes m) then Inl InvalidOutcome
          else if bets s (bet_address findPDA programId marketKey caller) \<noteq> None then Inl AlreadyBet
          else if balances s (Wallet caller) < betAmount m then Inl InsufficientFunds
          else
            (let p = protocol s;
                 fees = calculateFees (betAmount m) (protocolFeeBps p) (creatorFeeBps p) (poolFeeBps p);
                 bal1 = transfer (Wallet caller) (Wallet (treasury p)) (protocolFee fees) (balances s);
                 bal2 = transfer (Wallet caller) (Wallet (creatorFeeWallet m)) (creatorFee fees) bal1;
                 bal3 = transfer (Wallet caller) (BonusVault marketKey) (poolFee fees) bal2;
                 bal4 = transfer (Wallet caller) (StakeVault marketKey) (netAmount fees) bal3;
                 out = outcomes m ! idx;
                 out' = out\<lparr> totalAmount := totalAmount out + netAmount fees,
                             bettorCount := bettorCount out + 1 \<rparr>;
                 m' = m\<lparr> outcomes := (outcomes m)[idx := out'],
                         totalPool := totalPool m + netAmount fees,
                         bonusPool := bonusPool m + poolFee fees \<rparr>;
                 b = \<lparr> market = marketKey, bettor = caller, outcomeIndex = idx,
                       originalAmount = betAmount m, poolAmount = netAmount fees,
                       claimed = False, placedAt = now \<rparr>
             in Inr (s\<lparr> markets := (markets s)(marketKey \<mapsto> m'),
                        bets := (bets s)(bet_address findPDA programId marketKey caller \<mapsto> b),
                        balances := bal4 \<rparr>)))"

text \<open>
  Modelled from the spec: \<^verbatim>\<open>withdraw_bet\<close>, section 4.2. Allowed only while the status is
  Open and now < bettingDeadline, only by the bet's own bettor, and only if the bet is not
  claimed or withdrawn yet. It returns poolAmount to the bettor (fees are not refunded),
  sets claimed, and takes the stake out of the outcome's totalAmount and bettorCount and
  of the market's totalPool. It fails with MarketNotOpen, BettingClosed, AlreadyClaimed,
  Unauthorized.
\<close>

definition withdraw_bet ::
  "findProgramAddress \<Rightarrow> PublicKey \<Rightarrow> Ledger \<Rightarrow> int \<Rightarrow> PublicKey \<Rightarrow> PublicKey
     \<Rightarrow> LedgerError + Ledger" where
  "withdraw_bet findPDA programId s now caller marketKey =
     (case markets s marketKey of
        None \<Rightarrow> Inl RecordNotFound
      | Some m \<Rightarrow>
          if status m \<noteq> Open then Inl MarketNotOpen
          else if \<not> now < bettingDeadline m then Inl BettingClosed
          else
            (case bets s (bet_address findPDA programId marketKey caller) of
               None \<Rightarrow> Inl RecordNotFound
             | Some b \<Rightarrow>
                 if bettor b \<noteq> caller then Inl Unauthorized
                 else if claimed b then Inl AlreadyClaimed
                 else if \<not> outcomeIndex b < length (outcomes m) then Inl InvalidOutcome
                 else
                   (let out = outcomes m ! outcomeIndex b
                    in if balances s (StakeVault marketKey) < poolAmount b
                          \<or> totalAmount out < poolAmount b \<or> bettorCount out < 1
                          \<or> totalPool m < poolAmount b
                       then Inl ArithmeticFault
                       else
                         (let out' = out\<lparr> totalAmount := totalAmount out - poolAmount b,
                                          bettorCount := bettorCount out - 1 \<rparr>;
                              m' = m\<lparr> outcomes := (outcomes m)[outcomeIndex b := out'],
                                      totalPool := totalPool m - poolAmount b \<rparr>
                          in Inr (s\<lparr> markets := (markets s)(marketKey \<mapsto> m'),
                                     bets := (bets s)(bet_address findPDA programId marketKey caller
                                                \<mapsto> b\<lparr> claimed := True \<rparr>),
                                     balances := transfer (StakeVault marketKey) (Wallet caller)
                                                   (poolAmount b) (balances s) \<rparr>)))))"

text \<open>
  Modelled from the spec: \<^verbatim>\<open>resolve_market(winningOutcome)\<close>, section 4.2, the manual path:
  by the creator only; requires the status Open, now \<ge> bettingDeadline and a valid
  winning outcome; sets the status Resolved, winningOutcome, resolvedAt = now and
  resolvedByOracle = false. It fails with Unauthorized, MarketNotOpen, BettingNotClosed,
  InvalidOutcome.
\<close>

definition resolve_market ::
  "Ledger \<Rightarrow> int \<Rightarrow> PublicKey \<Rightarrow> PublicKey \<Rightarrow> nat \<Rightarrow> LedgerError + Ledger" where
  "resolve_market s now caller marketKey winner =
     (case markets s marketKey of
        None \<Rightarrow> Inl RecordNotFound
      | Some m \<Rightarrow>
          if caller \<noteq> creator m then Inl Unauthorized
          else if status m \<noteq> Open then Inl MarketNotOpen
          else if now < bettingDeadline m then Inl BettingNotClosed
          else if \<not> winner < length (outcomes m) then Inl InvalidOutcome
          else Inr (s\<lparr> markets := (markets s)(marketKey \<mapsto>
                       m\<lparr> status := Resolved, winningOutcome := winner, resolvedAt := now,
                          resolvedByOracle := False \<rparr>) \<rparr>))"

text \<open>
  Modelled from the spec: \<^verbatim>\<open>oracle_resolve_market(winningOutcome)\<close>, section 4.2, the
  automated path: by the authority of the oracle assigned to the market, and only if that
  oracle is active and its category vector includes the market's category; otherwise as
  \<open>resolve_market\<close>, with resolvedByOracle = true; it increments the oracle's
  marketsResolved and sets its lastResolutionAt. Further errors: OracleNotAssigned,
  OracleInactive, OracleCategoryMismatch.
\<close>

definition oracle_resolve_market ::
  "Ledger \<Rightarrow> int \<Rightarrow> PublicKey \<Rightarrow> PublicKey \<Rightarrow> nat \<Rightarrow> LedgerError + Ledger" where
  "oracle_resolve_market s now caller marketKey winner =
     (case markets s marketKey of
        None \<Rightarrow> Inl RecordNotFound
      | Some m \<Rightarrow>
          (case assignedOracle m of
             None \<Rightarrow> Inl OracleNotAssigned
           | Some oracleKey \<Rightarrow>
               (case oracles s oracleKey of
                  None \<Rightarrow> Inl RecordNotFound
                | Some orc \<Rightarrow>
                    if caller \<noteq> oracleAuthority orc then Inl Unauthorized
                    else if \<not> isActive orc then Inl OracleInactive
                    else if \<not> (category m < length (categories orc) \<and> categories orc ! category m)
                      then Inl OracleCategoryMismatch
                    else if status m \<noteq> Open then Inl MarketNotOpen
                    else if now < bettingDeadline m then Inl BettingNotClosed
                    else if \<not> winner < length (outcomes m) then Inl InvalidOutcome
                    else Inr (s\<lparr> markets := (markets s)(marketKey \<mapsto>
                                 m\<lparr> status := Resolved, winningOutcome := winner,
                                    resolvedAt := now, resolvedByOracle := True \<rparr>),
                               oracles := (oracles s)(oracleKey \<mapsto>
                                 orc\<lparr> marketsResolved := marketsResolved orc + 1,
                                      lastResolutionAt := now \<rparr>) \<rparr>))))"

text \<open>
  Modelled from the spec: \<^verbatim>\<open>cancel_market\<close>, section 4.2: by the creator only, only while
  the status is Open, at any time; sets the status Cancelled. It fails with Unauthorized,
  MarketNotOpen.
\<close>

definition cancel_market :: "Ledger \<Rightarrow> PublicKey \<Rightarrow> PublicKey \<Rightarrow> LedgerError + Ledger" where
  "cancel_market s caller marketKey =
     (case markets s marketKey of
        None \<Rightarrow> Inl RecordNotFound
      | Some m \<Rightarrow>
          if caller \<noteq> creator m then Inl Unauthorized
          else if status m \<noteq> Open then Inl MarketNotOpen
          else Inr (s\<lparr> markets := (markets s)(marketKey \<mapsto> m\<lparr> status := Cancelled \<rparr>) \<rparr>))"

text \<open>
  Modelled from the spec: \<^verbatim>\<open>claim_winnings\<close>, section 4.2: only when the status is
  Resolved and the caller holds an unclaimed Bet on the winning outcome. The payout is
  poolAmount * (totalPool + bonusPool) / winningOutcomeTotal, the quotient rounded toward
  zero, where winningOutcomeTotal is the total credited to the winning outcome; a zero
  total pays totalPool + bonusPool. It sets claimed and fails with MarketNotResolved,
  WrongOutcome, AlreadyClaimed. \<open>winnings\<close> is the payout, \<open>stake_share\<close> the part of it
  that the model takes from the stake vault.
\<close>

definition winnings :: "Market \<Rightarrow> Bet \<Rightarrow> int" where
  "winnings m b =
     (let winningOutcomeTotal = totalAmount (outcomes m ! winningOutcome m)
      in if winningOutcomeTotal = 0 then totalPool m + bonusPool m
         else bn_div (poolAmount b * (totalPool m + bonusPool m)) winningOutcomeTotal)"

definition stake_share :: "Market \<Rightarrow> Bet \<Rightarrow> int" where
  "stake_share m b =
     (let winningOutcomeTotal = totalAmount (outcomes m ! winningOutcome m)
      in if winningOutcomeTotal = 0 then totalPool m
         else bn_div (poolAmount b * totalPool m) winningOutcomeTotal)"

definition claim_winnings ::
  "findProgramAddress \<Rightarrow> PublicKey \<Rightarrow> Ledger \<Rightarrow> PublicKey \<Rightarrow> PublicKey \<Rightarrow> LedgerError + Ledger" where
  "claim_winnings findPDA programId s caller marketKey =
     (case markets s marketKey of
        None \<Rightarrow> Inl RecordNotFound
      | Some m \<Rightarrow>
          if status m \<noteq> Resolved then Inl MarketNotResolved
          else
            (case bets s (bet_address findPDA programId marketKey caller) of
               None \<Rightarrow> Inl RecordNotFound
             | Some b \<Rightarrow>
                 if claimed b then Inl AlreadyClaimed
                 else if outcomeIndex b \<noteq> winningOutcome m then Inl WrongOutcome
                 else if \<not> winningOutcome m < length (outcomes m) then Inl InvalidOutcome
                 else
                   (let payout = winnings m b;
                        fromStake = stake_share m b;
                        fromBonus = payout - fromStake
                    in if balances s (StakeVault marketKey) < fromStake
                          \<or> balances s (BonusVault marketKey) < fromBonus
                       then Inl ArithmeticFault
                       else Inr (s\<lparr> bets := (bets s)(bet_address findPDA programId marketKey caller
                                              \<mapsto> b\<lparr> claimed := True \<rparr>),
                                   balances := transfer (BonusVault marketKey) (Wallet caller) fromBonus
                                                 (transfer (StakeVault marketKey) (Wallet caller)
                                                    fromStake (balances s)) \<rparr>))))"

text \<open>
  Modelled from the spec: \<^verbatim>\<open>claim_refund\<close>, section 4.2: only when the status is
  Cancelled and the caller holds an unclaimed Bet; refunds poolAmount (fees are not
  returned) and sets claimed. It fails with MarketNotCancelled, AlreadyClaimed.
\<close>

definition claim_refund ::
  "findProgramAddress \<Rightarrow> PublicKey \<Rightarrow> Ledger \<Rightarrow> PublicKey \<Rightarrow> PublicKey \<Rightarrow> LedgerError + Ledger" where
  "claim_refund findPDA programId s caller marketKey =
     (case markets s marketKey of
        None \<Rightarrow> Inl RecordNotFound
      | Some m \<Rightarrow>
          if status m \<noteq> Cancelled then Inl MarketNotCancelled
          else
            (case bets s (bet_address findPDA programId marketKey caller) of
               None \<Rightarrow> Inl RecordNotFound
             | Some b \<Rightarrow>
                 if claimed b then Inl AlreadyClaimed
                 else if balances s (StakeVault marketKey) < poolAmount b then Inl ArithmeticFault
                 else Inr (s\<lparr> bets := (bets s)(bet_address findPDA programId marketKey caller
                                        \<mapsto> b\<lparr> claimed := True \<rparr>),
                             balances := transfer (StakeVault marketKey) (Wallet caller)
                                           (poolAmount b) (balances s) \<rparr>)))"

text \<open>
  Modelled from the spec: \<^verbatim>\<open>assign_oracle(marketId, oracleId)\<close>, section 4.3: by the
  creator of the market only, while the market is Open; sets the oracle of the market and,
  when one is given, the external event id. It fails with Unauthorized, MarketNotOpen,
  OracleNotFound.
\<close>

definition assign_oracle ::
  "Ledger \<Rightarrow> PublicKey \<Rightarrow> PublicKey \<Rightarrow> PublicKey \<Rightarrow> string option \<Rightarrow> LedgerError + Ledger" where
  "assign_oracle s caller marketKey oracleKey eventId =
     (case markets s marketKey of
        None \<Rightarrow> Inl RecordNotFound
      | Some m \<Rightarrow>
          if caller \<noteq> creator m then Inl Unauthorized
          else if status m \<noteq> Open then Inl MarketNotOpen
          else if oracles s oracleKey = None then Inl OracleNotFound
          else Inr (s\<lparr> markets := (markets s)(marketKey \<mapsto>
                       m\<lparr> assignedOracle := Some oracleKey,
                          oracleEventId := (case eventId of None \<Rightarrow> oracleEventId m | Some e \<Rightarrow> e) \<rparr>) \<rparr>))"

text \<open>
  A request names the operation, the time of the call and the caller. \<open>step\<close> runs one
  request; \<open>commit\<close> is the all-or-nothing rule of the specification: a failed call leaves
  the ledger as it was. \<open>run\<close> commits a sequence of requests in order. The requests
  are the operations of the specification that change a Market or a Bet that exists;
  \<^verbatim>\<open>create_market\<close> makes a new Market record in the status Open, and the registries and
  the protocol settings do not touch a Market.
\<close>

datatype request =
    PlaceBet int PublicKey PublicKey nat
  | WithdrawBet int PublicKey PublicKey
  | ResolveMarket int PublicKey PublicKey nat
  | OracleResolveMarket int PublicKey PublicKey nat
  | CancelMarket PublicKey PublicKey
  | ClaimWinnings PublicKey PublicKey
  | ClaimRefund PublicKey PublicKey
  | AssignOracle PublicKey PublicKey PublicKey "string option"

fun step :: "findProgramAddress \<Rightarrow> PublicKey \<Rightarrow> Ledger \<Rightarrow> request \<Rightarrow> LedgerError + Ledger" where
  "step findPDA programId s (PlaceBet now caller marketKey idx) =
     place_bet findPDA programId s now caller marketKey idx"
| "step findPDA programId s (WithdrawBet now caller marketKey) =
     withdraw_bet findPDA programId s now caller marketKey"
| "step findPDA programId s (ResolveMarket now caller marketKey winner) =
     resolve_market s now caller marketKey winner"
| "step findPDA programId s (OracleResolveMarket now caller marketKey winner) =
     oracle_resolve_market s now caller marketKey winner"
| "step findPDA programId s (CancelMarket caller marketKey) = cancel_market s caller marketKey"
| "step findPDA programId s (ClaimWinnings caller marketKey) =
     claim_winnings findPDA programId s caller marketKey"
| "step findPDA programId s (ClaimRefund caller marketKey) =
     claim_refund findPDA programId s caller marketKey"
| "step findPDA programId s (AssignOracle caller marketKey oracleKey eventId) =
     assign_oracle s caller marketKey oracleKey eventId"

definition commit :: "findProgramAddress \<Rightarrow> PublicKey \<Rightarrow> Ledger \<Rightarrow> request \<Rightarrow> Ledger" where
  "commit findPDA programId s r = (case step findPDA programId s r of Inl e \<Rightarrow> s | Inr s' \<Rightarrow> s')"

definition run :: "findProgramAddress \<Rightarrow> PublicKey \<Rightarrow> Ledger \<Rightarrow> request list \<Rightarrow> Ledger" where
  "run findPDA programId s rs = foldl (commit findPDA programId) s rs"

text \<open>
  Two properties of ledgers that the theorems below use. \<open>forward a b\<close>: a market whose
  status was \<open>a\<close> may have the status \<open>b\<close> later. \<open>bets_addressed\<close>: every Bet record is
  stored at the address derived from its own market and bettor.
\<close>

definition forward :: "MarketStatus \<Rightarrow> MarketStatus \<Rightarrow> bool" where
  "forward a b \<longleftrightarrow> b = a \<or> (a = Open \<and> (b = Resolved \<or> b = Cancelled))"

definition bets_addressed :: "findProgramAddress \<Rightarrow> PublicKey \<Rightarrow> Ledger \<Rightarrow> bool" where
  "bets_addressed findPDA programId s \<longleftrightarrow>
     (\<forall>k b. bets s k = Some b \<longrightarrow> k = bet_address findPDA programId (market b) (bettor b))"

section \<open>The fixture of the integration tests\<close>

text \<open>
  The accounts of \<^verbatim>\<open>tests/fortuna-protocol.ts\<close>: fees of 50, 50 and 500 basis points, a market
  with the outcomes Yes and No and a bet amount of 10,000,000 (10 USDC), the creator as fee
  wallet, and two bettors who hold 100,000,000 each. Key pairs are generated at random in
  the tests; here they are fixed byte strings. \<open>test_findPDA\<close> stands for the library's
  address derivation: it joins the seeds and the program id.
\<close>

definition test_findPDA :: findProgramAddress where
  "test_findPDA seeds programId = (PublicKey (concat seeds @ toBuffer programId), 255)"

definition programKey :: PublicKey where "programKey = PublicKey [0]"
definition authorityKey :: PublicKey where "authorityKey = PublicKey [1]"
definition treasuryKey :: PublicKey where "treasuryKey = PublicKey [2]"
definition creatorKey :: PublicKey where "creatorKey = PublicKey [3]"
definition bettor1 :: PublicKey where "bettor1 = PublicKey [4]"
definition bettor2 :: PublicKey where "bettor2 = PublicKey [5]"
definition tokenMintKey :: PublicKey where "tokenMintKey = PublicKey [6]"
definition marketPDA :: PublicKey where "marketPDA = PublicKey [7]"

definition BET_AMOUNT :: int where "BET_AMOUNT = 10000000"

definition test_protocol :: ProtocolState where
  "test_protocol =
     \<lparr> authority = authorityKey, treasury = treasuryKey, protocolFeeBps = 50,
       creatorFeeBps = 50, poolFeeBps = 500, totalMarkets = 1, totalVolume = 0,
       totalOracles = 0, totalLicenses = 0, requireLicense = False \<rparr>"

definition test_market :: Market where
  "test_market =
     \<lparr> marketId = 1, creator = creatorKey, creatorFeeWallet = creatorKey,
       tokenMint = tokenMintKey, category = 3, assignedOracle = None, oracleEventId = [],
       title = ''Will BTC reach $100k?'', description = ''Bitcoin price prediction market'',
       betAmount = BET_AMOUNT, bettingDeadline = 86400, resolutionDeadline = 172800,
       status = Open, winningOutcome = 0, totalPool = 0, bonusPool = 0,
       outcomes = [\<lparr> label = ''Yes'', totalAmount = 0, bettorCount = 0 \<rparr>,
                   \<lparr> label = ''No'', totalAmount = 0, bettorCount = 0 \<rparr>],
       createdAt = 0, resolvedAt = 0, resolvedByOracle = False \<rparr>"

definition test_ledger :: Ledger where
  "test_ledger =
     \<lparr> protocol = test_protocol,
       markets = [marketPDA \<mapsto> test_market],
       bets = Map.empty,
       oracles = Map.empty,
       balances = (\<lambda>a. 0)(Wallet bettor1 := 100000000, Wallet bettor2 := 100000000) \<rparr>"

text \<open>
  Two runs on the fixture. \<open>scenario_B\<close>: the two bettors bet on opposite outcomes and
  the creator resolves the market in favour of outcome 0 once betting has closed.
  \<open>scenario_cancelled\<close>: one bet, then the creator cancels the market.
\<close>

definition scenario_B :: Ledger where
  "scenario_B = run test_findPDA programKey test_ledger
     [PlaceBet 10 bettor1 marketPDA 0, PlaceBet 20 bettor2 marketPDA 1,
      ResolveMarket 86400 creatorKey marketPDA 0]"

definition scenario_cancelled :: Ledger where
  "scenario_cancelled = run test_findPDA programKey test_ledger
     [PlaceBet 10 bettor1 marketPDA 0, CancelMarket creatorKey marketPDA]"

section \<open>Fee engine: properties\<close>

lemma bn_div_nonneg: "0 \<le> a \<Longrightarrow> 0 \<le> b \<Longrightarrow> bn_div a b = a div b"
  by (simp add: bn_div_def)

lemma bn_div_trunc: "bn_div a b = sgn a * sgn b * (\<bar>a\<bar> div \<bar>b\<bar>)"
  by (auto simp: bn_div_def sgn_if abs_if)

text \<open>
  C1. For every basis-point triple whose sum is at most 1000 and every positive amount,
  the four components returned by \<open>calculateFees\<close> add up to the amount:
  poolFee + creatorFee + protocolFee + netAmount = amount.
\<close>

theorem calculateFees_conservation:
  assumes "0 \<le> protocolBps" and "0 \<le> creatorBps" and "0 \<le> poolBps"
    and "protocolBps + creatorBps + poolBps \<le> MAX_TOTAL_FEE_BPS"
    and "0 < amount"
  shows "poolFee (calculateFees amount protocolBps creatorBps poolBps)
       + creatorFee (calculateFees amount protocolBps creatorBps poolBps)
       + protocolFee (calculateFees amount protocolBps creatorBps poolBps)
       + netAmount (calculateFees amount protocolBps creatorBps poolBps) = amount"
  by (simp add: calculateFees_def Let_def)

theorem calculateFees_conservation_witness:
  "poolFee (calculateFees 10000000 50 50 500)
     + creatorFee (calculateFees 10000000 50 50 500)
     + protocolFee (calculateFees 10000000 50 50 500)
     + netAmount (calculateFees 10000000 50 50 500) = 10000000
   \<and> (50::int) + 50 + 500 \<le> MAX_TOTAL_FEE_BPS"
  using calculateFees_conservation [of 50 50 500 10000000]
  by (simp add: MAX_TOTAL_FEE_BPS_def)

text \<open>
  C2. For every non-negative amount and every triple of (non-negative) basis-point values,
  each fee is floor(amount * bps / 10000), each division on its own, and netAmount is the
  amount minus the three fees. For amount 10,000,000 and bps (50, 50, 500) the result is
  protocolFee 50,000, creatorFee 50,000, poolFee 500,000 and netAmount 9,400,000.
\<close>

theorem calculateFees_floor:
  assumes "0 \<le> amount" and "0 \<le> protocolBps" and "0 \<le> creatorBps" and "0 \<le> poolBps"
  shows "protocolFee (calculateFees amount protocolBps creatorBps poolBps)
           = (amount * protocolBps) div 10000
       \<and> creatorFee (calculateFees amount protocolBps creatorBps poolBps)
           = (amount * creatorBps) div 10000
       \<and> poolFee (calculateFees amount protocolBps creatorBps poolBps)
           = (amount * poolBps) div 10000
       \<and> netAmount (calculateFees amount protocolBps creatorBps poolBps)
           = amount - ((amount * poolBps) div 10000 + (amount * creatorBps) div 10000
                        + (amount * protocolBps) div 10000)
       \<and> calculateFees 10000000 50 50 500
           = \<lparr> poolFee = 500000, creatorFee = 50000, protocolFee = 50000,
               netAmount = 9400000, totalFees = 600000 \<rparr>"
  using assms
  by (simp add: calculateFees_def Let_def BPS_DENOMINATOR_def bn_div_nonneg)

theorem calculateFees_floor_witness:
  "protocolFee (calculateFees 12345 50 50 500) = 61
   \<and> creatorFee (calculateFees 12345 50 50 500) = 61
   \<and> poolFee (calculateFees 12345 50 50 500) = 617
   \<and> netAmount (calculateFees 12345 50 50 500) = 11606"
  using calculateFees_floor [of 12345 50 50 500]
  by simp

text \<open>
  C3. \<open>calculatePotentialWinnings\<close> returns
  netAmount * (totalPool + bonusPool + netAmount) / (outcomeTotalBeforeBet + netAmount),
  the quotient rounded toward zero, where netAmount is the net amount that \<open>calculateFees\<close>
  gives for the bet; when outcomeTotalBeforeBet + netAmount is zero it returns
  totalPool + bonusPool + netAmount.
\<close>

theorem calculatePotentialWinnings_share:
  "(let n = netAmount (calculateFees bet protocolBps creatorBps poolBps);
        r = calculatePotentialWinnings bet outcomeTotalBeforeBet pool bonus
              protocolBps creatorBps poolBps
    in (outcomeTotalBeforeBet + n \<noteq> 0 \<longrightarrow>
          r = sgn (n * (pool + bonus + n)) * sgn (outcomeTotalBeforeBet + n)
                * (\<bar>n * (pool + bonus + n)\<bar> div \<bar>outcomeTotalBeforeBet + n\<bar>))
     \<and> (outcomeTotalBeforeBet + n \<noteq> 0 \<and> 0 \<le> n * (pool + bonus + n)
          \<and> 0 \<le> outcomeTotalBeforeBet + n \<longrightarrow>
          r = (n * (pool + bonus + n)) div (outcomeTotalBeforeBet + n))
     \<and> (outcomeTotalBeforeBet + n = 0 \<longrightarrow> r = pool + bonus + n))"
proof -
  define n where "n = netAmount (calculateFees bet protocolBps creatorBps poolBps)"
  define x where "x = n * (pool + bonus + n)"
  define y where "y = outcomeTotalBeforeBet + n"
  define r where "r = calculatePotentialWinnings bet outcomeTotalBeforeBet pool
                        bonus protocolBps creatorBps poolBps"
  have r_eq: "r = (if y = 0 then pool + bonus + n else bn_div x y)"
    by (simp add: r_def calculatePotentialWinnings_def Let_def n_def x_def y_def)
  have 1: "y \<noteq> 0 \<longrightarrow> r = sgn x * sgn y * (\<bar>x\<bar> div \<bar>y\<bar>)"
    using r_eq bn_div_trunc [of x y] by presburger
  have 2: "y \<noteq> 0 \<and> 0 \<le> x \<and> 0 \<le> y \<longrightarrow> r = x div y"
    using r_eq bn_div_nonneg [of x y] by presburger
  have 3: "y = 0 \<longrightarrow> r = pool + bonus + n"
    using r_eq by presburger
  from 1 2 3 show ?thesis
    unfolding Let_def r_def [symmetric] n_def [symmetric] x_def [symmetric] y_def [symmetric]
    by blast
qed

theorem calculatePotentialWinnings_share_witness:
  "netAmount (calculateFees 10000000 50 50 500) = 9400000
   \<and> calculatePotentialWinnings 10000000 4700000 30000000 1000000 50 50 500 = 26933333
   \<and> calculatePotentialWinnings 10000000 (- 9400000) 30000000 1000000 50 50 500 = 40400000"
proof -
  have n: "netAmount (calculateFees 10000000 50 50 500) = 9400000"
    by (simp add: calculateFees_def Let_def BPS_DENOMINATOR_def bn_div_def)
  show ?thesis
    using calculatePotentialWinnings_share [of 10000000 50 50 500 4700000 30000000 1000000]
      calculatePotentialWinnings_share [of 10000000 50 50 500 "- 9400000" 30000000 1000000]
    by (simp add: Let_def n)
qed

section \<open>Amount formatting: properties\<close>

lemma digit_of_digit_char: "d < 10 \<Longrightarrow> digit_of (digit_char d) = Some d"
proof -
  assume "d < 10"
  then have "d = 0 \<or> d = 1 \<or> d = 2 \<or> d = 3 \<or> d = 4 \<or> d = 5 \<or> d = 6 \<or> d = 7 \<or> d = 8 \<or> d = 9"
    by arith
  then show ?thesis
    by (elim disjE) (simp_all add: digit_of_def digit_char_def)
qed

lemma parse_digits_append:
  "parse_digits acc xs = Some v \<Longrightarrow> parse_digits acc (xs @ ys) = parse_digits v ys"
  by (induction xs arbitrary: acc) (auto split: option.splits)

lemma parse_nat_digits: "parse_digits 0 (nat_digits n) = Some n"
proof (induction n rule: nat_digits.induct)
  case (1 n)
  show ?case
  proof (cases "n < 10")
    case True
    then show ?thesis by (simp add: nat_digits.simps [of n] digit_of_digit_char)
  next
    case False
    with 1 have "parse_digits 0 (nat_digits (n div 10)) = Some (n div 10)" by simp
    then have "parse_digits 0 (nat_digits (n div 10) @ [digit_char (n mod 10)])
               = parse_digits (n div 10) [digit_char (n mod 10)]"
      by (rule parse_digits_append)
    with False show ?thesis
      by (simp add: nat_digits.simps [of n] digit_of_digit_char)
  qed
qed

lemma parse_zeros: "parse_digits 0 (replicate k CHR ''0'') = Some 0"
  by (induction k) (simp_all add: digit_of_def)

lemma nat_digits_nonempty: "nat_digits n \<noteq> []"
  by (subst nat_digits.simps) simp

lemma digit_of_dot: "digit_of c \<noteq> None \<Longrightarrow> c \<noteq> CHR ''.'' \<and> c \<noteq> CHR ''-''"
  by (auto simp: digit_of_def Let_def)

lemma digits_nat_digits: "c \<in> set (nat_digits n) \<Longrightarrow> digit_of c \<noteq> None"
proof (induction n rule: nat_digits.induct)
  case (1 n)
  show ?case
  proof (cases "n < 10")
    case True
    with 1(2) show ?thesis by (simp add: nat_digits.simps [of n] digit_of_digit_char)
  next
    case False
    with 1 show ?thesis
      by (auto simp: nat_digits.simps [of n] digit_of_digit_char)
  qed
qed

lemma split_no_sep: "sep \<notin> set xs \<Longrightarrow> split_str sep xs = [xs]"
  by (induction xs) auto

lemma split_at_sep: "sep \<notin> set xs \<Longrightarrow> split_str sep (xs @ sep # ys) = xs # split_str sep ys"
  by (induction xs) auto

lemma slice_init: "d \<le> length s \<Longrightarrow> 0 < d \<Longrightarrow> slice_str s 0 (Some (- int d)) = take (length s - d) s"
  by (simp add: slice_str_def Let_def nat_diff_distrib' max_def)

lemma slice_tail: "d \<le> length s \<Longrightarrow> 0 < d \<Longrightarrow> slice_str s (- int d) None = drop (length s - d) s"
  by (simp add: slice_str_def Let_def max_def nat_diff_distrib')

lemma slice_prefix_all: "length s = d \<Longrightarrow> slice_str s 0 (Some (int d)) = s"
  by (simp add: slice_str_def Let_def)

lemma padded_digits:
  "c \<in> set (padStart (nat_digits n) k CHR ''0'') \<Longrightarrow> digit_of c \<noteq> None"
proof -
  assume "c \<in> set (padStart (nat_digits n) k CHR ''0'')"
  then consider "c = CHR ''0''" | "c \<in> set (nat_digits n)"
    by (auto simp: padStart_def)
  then show ?thesis
  proof cases
    case 1
    then show ?thesis by (simp add: digit_of_def)
  next
    case 2
    then show ?thesis by (rule digits_nat_digits)
  qed
qed

lemma parse_padded: "parse_digits 0 (padStart (nat_digits n) k CHR ''0'') = Some n"
  unfolding padStart_def
  using parse_digits_append [OF parse_zeros] parse_nat_digits by simp

lemma bn_of_digits:
  assumes "\<forall>c \<in> set s. digit_of c \<noteq> None" and "parse_digits 0 s = Some n"
  shows "bn_of_string s = Some (int n)"
proof (cases s)
  case Nil
  with assms show ?thesis by (simp add: bn_of_string_def)
next
  case (Cons c cs)
  with assms have "c \<noteq> CHR ''-''" using digit_of_dot by auto
  with Cons assms show ?thesis by (simp add: bn_of_string_def)
qed

lemma parse_format_amount:
  assumes "0 \<le> amount" and "1 \<le> decimals"
  shows "parseAmount (formatAmount amount decimals) decimals = Some amount"
proof -
  define str where "str = padStart (nat_digits (nat amount)) (decimals + 1) CHR ''0''"
  define ip where "ip = take (length str - decimals) str"
  define dp where "dp = drop (length str - decimals) str"
  have len: "decimals + 1 \<le> length str"
    by (simp add: str_def padStart_def)
  have digs: "\<forall>c \<in> set str. digit_of c \<noteq> None"
    using padded_digits by (auto simp: str_def)
  have ip_ne: "ip \<noteq> []" using len by (auto simp: ip_def)
  have dp_len: "length dp = decimals" using len by (simp add: dp_def)
  have cat: "ip @ dp = str" by (simp add: ip_def dp_def)
  have "set ip \<subseteq> set str" "set dp \<subseteq> set str"
    by (auto simp: ip_def dp_def dest: in_set_takeD in_set_dropD)
  with digs have nodot: "CHR ''.'' \<notin> set ip" "CHR ''.'' \<notin> set dp"
    using digit_of_dot by blast+
  have s1: "padStart (bn_toString amount) (decimals + 1) CHR ''0'' = str"
    using assms by (simp add: str_def bn_toString_def)
  have s2: "slice_str str 0 (Some (- int decimals)) = ip"
    using len assms by (simp add: slice_init ip_def)
  have s3: "slice_str str (- int decimals) None = dp"
    using len assms by (simp add: slice_tail dp_def)
  have fmt: "formatAmount amount decimals = ip @ CHR ''.'' # dp"
    unfolding formatAmount_def Let_def s1 s2 s3 using ip_ne by simp
  have spl: "split_str CHR ''.'' (ip @ CHR ''.'' # dp) = [ip, dp]"
    using nodot by (simp add: split_at_sep split_no_sep)
  have pad: "slice_str (padEnd dp decimals CHR ''0'') 0 (Some (int decimals)) = dp"
    using dp_len by (simp add: padEnd_def slice_prefix_all)
  have "bn_of_string str = Some (int (nat amount))"
    using digs parse_padded [of "nat amount" "decimals + 1"]
    by (intro bn_of_digits) (simp_all add: str_def)
  with assms show ?thesis
    by (simp add: parseAmount_def fmt spl pad cat Let_def)
qed

lemma parse_format_zero_decimals:
  assumes "0 \<le> amount"
  shows "formatAmount amount 0 = ''0.'' @ nat_digits (nat amount)"
    and "parseAmount (formatAmount amount 0) 0 = Some 0"
proof -
  have ne: "nat_digits (nat amount) \<noteq> []" by (rule nat_digits_nonempty)
  then have l: "Suc 0 - length (nat_digits (nat amount)) = 0"
    by (cases "nat_digits (nat amount)") simp_all
  show fmt: "formatAmount amount 0 = ''0.'' @ nat_digits (nat amount)"
    using assms by (simp add: formatAmount_def bn_toString_def Let_def padStart_def slice_str_def l)
  have "CHR ''.'' \<notin> set (nat_digits (nat amount))"
    using digits_nat_digits digit_of_dot by blast
  then have "split_str CHR ''.'' (''0.'' @ nat_digits (nat amount)) = [''0'', nat_digits (nat amount)]"
    by (simp add: split_no_sep)
  then show "parseAmount (formatAmount amount 0) 0 = Some 0"
    by (simp add: parseAmount_def fmt Let_def slice_str_def padEnd_def bn_of_string_def digit_of_def)
qed

text \<open>
  C9. For every non-negative amount and every decimals \<ge> 1,
  parseAmount (formatAmount amount decimals) decimals is the amount again. For decimals = 0
  the round trip does not hold: formatAmount prints the whole value after the point
  ("0." followed by the digits) and parseAmount then drops it, so the result is 0, which
  differs from every positive amount.
\<close>

theorem formatAmount_parseAmount_roundtrip:
  "(0 \<le> amount \<and> 1 \<le> decimals \<longrightarrow>
      parseAmount (formatAmount amount decimals) decimals = Some amount)
   \<and> (0 \<le> amount \<longrightarrow>
      formatAmount amount 0 = ''0.'' @ bn_toString amount
      \<and> parseAmount (formatAmount amount 0) 0 = Some 0)
   \<and> (0 < amount \<longrightarrow> parseAmount (formatAmount amount 0) 0 \<noteq> Some amount)"
  using parse_format_amount [of amount decimals] parse_format_zero_decimals [of amount]
  by (auto simp: bn_toString_def)

theorem formatAmount_parseAmount_roundtrip_witness:
  "formatAmount 1234567 6 = ''1.234567''
   \<and> parseAmount (formatAmount 1234567 6) 6 = Some 1234567
   \<and> formatAmount 1234567 0 = ''0.1234567''
   \<and> parseAmount (formatAmount 1234567 0) 0 = Some 0
   \<and> parseAmount (formatAmount 1234567 0) 0 \<noteq> Some 1234567"
proof -
  have hyps: "(0::int) \<le> 1234567" "(1::nat) \<le> 6" "(0::int) < 1234567"
    by simp_all
  have f6: "formatAmount 1234567 6 = ''1.234567''"
    by (simp add: formatAmount_def bn_toString_def nat_digits.simps digit_char_def
        padStart_def slice_str_def Let_def)
  have f0: "formatAmount 1234567 0 = ''0.1234567''"
    by (simp add: formatAmount_def bn_toString_def nat_digits.simps digit_char_def
        padStart_def slice_str_def Let_def)
  from formatAmount_parseAmount_roundtrip [of 1234567 6] hyps f6 f0 show ?thesis
    by blast
qed

section \<open>Oracle categories: properties\<close>

lemma category_step_nth:
  "i < length res \<Longrightarrow>
   (if 0 \<le> c \<and> c < (12::int) then res[nat c := True] else res) ! i
     = (res ! i \<or> (c = int i \<and> i < 12))"
  by (cases "nat c = i") auto

lemma fold_cat_length:
  "length (fold (\<lambda>cat result. if 0 \<le> cat \<and> cat < 12 then result[nat cat := True] else result) cs res) = length res"
  by (induction cs arbitrary: res) auto

lemma fold_cat_nth:
  "i < length res \<Longrightarrow>
   fold (\<lambda>cat result. if 0 \<le> cat \<and> cat < (12::int) then result[nat cat := True] else result) cs res ! i
     = (res ! i \<or> (int i \<in> set cs \<and> i < 12))"
proof (induction cs arbitrary: res)
  case Nil
  then show ?case by simp
next
  case (Cons c cs)
  let ?r = "if 0 \<le> c \<and> c < (12::int) then res[nat c := True] else res"
  have len: "i < length ?r" using Cons.prems by simp
  have "fold (\<lambda>cat result. if 0 \<le> cat \<and> cat < (12::int) then result[nat cat := True] else result) (c # cs) res ! i
        = (?r ! i \<or> (int i \<in> set cs \<and> i < 12))"
    using Cons.IH [OF len] by simp
  also have "\<dots> = (res ! i \<or> (int i \<in> set (c # cs) \<and> i < 12))"
    using category_step_nth [OF Cons.prems, of c] by auto
  finally show ?case .
qed

lemma categoriesToBoolArray_length: "length (categoriesToBoolArray cs) = 12"
  by (simp add: categoriesToBoolArray_def fold_cat_length)

lemma categoriesToBoolArray_nth:
  "i < 12 \<Longrightarrow> categoriesToBoolArray cs ! i = (int i \<in> set cs)"
  by (simp add: categoriesToBoolArray_def fold_cat_nth)

lemma categoriesToBoolArray_filter:
  "categoriesToBoolArray (filter (\<lambda>c. 0 \<le> c \<and> c < 12) cs) = categoriesToBoolArray cs"
  by (rule nth_equalityI) (auto simp: categoriesToBoolArray_length categoriesToBoolArray_nth)

lemma boolArrayToCategories_categoriesToBoolArray:
  "boolArrayToCategories (categoriesToBoolArray cs) = map int (filter (\<lambda>i. int i \<in> set cs) [0..<12])"
  by (auto simp: boolArrayToCategories_def categoriesToBoolArray_length categoriesToBoolArray_nth
      intro!: filter_cong)

lemma categories_roundtrip_sorted:
  assumes "\<forall>c \<in> set cs. 0 \<le> c \<and> c < 12"
  shows "boolArrayToCategories (categoriesToBoolArray cs) = sorted_list_of_set (set cs)"
proof -
  let ?l = "map int (filter (\<lambda>i. int i \<in> set cs) [0..<12])"
  have s: "sorted ?l"
    by (simp add: sorted_map sorted_wrt_filter sorted_wrt_mono_rel [OF _ sorted_upt])
  have d: "distinct ?l"
    by (simp add: distinct_map inj_on_def)
  have seteq: "set ?l = set cs"
  proof
    show "set ?l \<subseteq> set cs" by auto
    show "set cs \<subseteq> set ?l"
    proof
      fix c assume c: "c \<in> set cs"
      with assms have "0 \<le> c" "c < 12" by auto
      then have "nat c < 12" "int (nat c) = c" by auto
      with c have "nat c \<in> set (filter (\<lambda>i. int i \<in> set cs) [0..<12])" by simp
      then have "int (nat c) \<in> set ?l" unfolding set_map by (rule imageI)
      with \<open>int (nat c) = c\<close> show "c \<in> set ?l" by simp
    qed
  qed
  have "sorted_list_of_set (set ?l) = ?l"
    using s d by (rule sorted_list_of_set.idem_if_sorted_distinct)
  then have "sorted_list_of_set (set cs) = ?l"
    by (simp only: seteq)
  then show ?thesis
    by (simp only: boolArrayToCategories_categoriesToBoolArray)
qed

text \<open>
  C10. \<open>categoriesToBoolArray\<close> always returns 12 booleans and ignores every input outside
  [0, 12). For a list of categories in [0, 12), \<open>boolArrayToCategories\<close> of the result is
  the list of the distinct members in ascending order, so the round trip is the identity
  on sorted lists without duplicates.
\<close>

theorem categories_roundtrip:
  "length (categoriesToBoolArray cs) = 12
   \<and> categoriesToBoolArray cs = categoriesToBoolArray (filter (\<lambda>c. 0 \<le> c \<and> c < 12) cs)
   \<and> ((\<forall>c \<in> set cs. 0 \<le> c \<and> c < 12) \<longrightarrow>
        boolArrayToCategories (categoriesToBoolArray cs) = sorted_list_of_set (set cs)
        \<and> sorted_wrt (<) (boolArrayToCategories (categoriesToBoolArray cs))
        \<and> set (boolArrayToCategories (categoriesToBoolArray cs)) = set cs)
   \<and> ((\<forall>c \<in> set cs. 0 \<le> c \<and> c < 12) \<and> sorted cs \<and> distinct cs \<longrightarrow>
        boolArrayToCategories (categoriesToBoolArray cs) = cs)"
proof -
  have sorted_case: "boolArrayToCategories (categoriesToBoolArray cs) = cs"
    if "\<forall>c \<in> set cs. 0 \<le> c \<and> c < 12" and "sorted cs" and "distinct cs"
    using that categories_roundtrip_sorted [of cs]
    by (simp add: sorted_list_of_set.idem_if_sorted_distinct)
  have strict: "sorted_wrt (<) (boolArrayToCategories (categoriesToBoolArray cs))"
    and members: "set (boolArrayToCategories (categoriesToBoolArray cs)) = set cs"
    if "\<forall>c \<in> set cs. 0 \<le> c \<and> c < 12"
    using categories_roundtrip_sorted [OF that] by simp_all
  show ?thesis
    using categoriesToBoolArray_length [of cs] categoriesToBoolArray_filter [of cs]
      categories_roundtrip_sorted [of cs] sorted_case strict members
    by presburger
qed

theorem categories_roundtrip_witness:
  "categoriesToBoolArray [3, 1, 3, 12, - 1, 11]
     = [False, True, False, True, False, False, False, False, False, False, False, True]
   \<and> categoriesToBoolArray [3, 1, 3, 12, - 1, 11] = categoriesToBoolArray [3, 1, 3, 11]
   \<and> boolArrayToCategories (categoriesToBoolArray [1, 3, 11]) = [1, 3, 11]
   \<and> set (boolArrayToCategories (categoriesToBoolArray [3, 1, 3, 11])) = {1, 3, 11}"
proof -
  have r12: "replicate 12 False = [False, False, False, False, False, False, False, False,
      False, False, False, False]"
    by (simp add: numeral_eq_Suc)
  have v: "categoriesToBoolArray [3, 1, 3, 12, - 1, 11]
     = [False, True, False, True, False, False, False, False, False, False, False, True]"
    by (simp add: categoriesToBoolArray_def r12)
  have f: "filter (\<lambda>c. 0 \<le> c \<and> c < 12) [3, 1, 3, 12, - 1, 11] = [3, 1, 3, 11 :: int]"
    by simp
  have h: "\<forall>c \<in> set [1, 3, 11 :: int]. 0 \<le> c \<and> c < 12" "sorted [1, 3, 11 :: int]"
    "distinct [1, 3, 11 :: int]" "\<forall>c \<in> set [3, 1, 3, 11 :: int]. 0 \<le> c \<and> c < 12"
    by simp_all
  have s: "set [3, 1, 3, 11 :: int] = {1, 3, 11}"
    by auto
  have a: "categoriesToBoolArray [3, 1, 3, 12, - 1, 11]
      = categoriesToBoolArray (filter (\<lambda>c. 0 \<le> c \<and> c < 12) [3, 1, 3, 12, - 1, 11])"
    using categories_roundtrip [of "[3, 1, 3, 12, - 1, 11]"] by (rule conjunct1 [OF conjunct2])
  have b: "boolArrayToCategories (categoriesToBoolArray [1, 3, 11]) = [1, 3, 11]"
    using categories_roundtrip [of "[1, 3, 11]"] h(1-3) by blast
  have c: "set (boolArrayToCategories (categoriesToBoolArray [3, 1, 3, 11])) = set [3, 1, 3, 11]"
    using categories_roundtrip [of "[3, 1, 3, 11]"] h(4) by blast
  show ?thesis
    using v a [unfolded f] b c [unfolded s] by (intro conjI)
qed

section \<open>License keys: properties\<close>

lemma utf8_bytes_bound: "valid_cp cp \<Longrightarrow> b \<in> set (utf8_bytes cp) \<Longrightarrow> b < 256"
  by (auto simp: utf8_bytes_def valid_cp_def split: if_splits)

lemma utf8_bytes_nonzero: "cp \<noteq> 0 \<Longrightarrow> 0 \<notin> set (utf8_bytes cp)"
  by (auto simp: utf8_bytes_def)

lemma utf8_bytes_nonempty: "utf8_bytes cp \<noteq> []"
  by (simp add: utf8_bytes_def)

lemma dm2: "a div 64 = b div 64 \<Longrightarrow> a mod 64 = b mod 64 \<Longrightarrow> a = b" for a b :: nat
  by (metis div_mult_mod_eq)

lemma dm3:
  fixes a b :: nat
  assumes "a div 4096 = b div 4096" "a div 64 mod 64 = b div 64 mod 64" "a mod 64 = b mod 64"
  shows "a = b"
proof -
  have "a div 64 div 64 = b div 64 div 64"
    using assms(1) by (simp add: div_mult2_eq [symmetric])
  then have "a div 64 = b div 64" using assms(2) by (rule dm2)
  then show ?thesis using assms(3) by (rule dm2)
qed

lemma dm4:
  fixes a b :: nat
  assumes "a div 262144 = b div 262144" "a div 4096 mod 64 = b div 4096 mod 64"
    "a div 64 mod 64 = b div 64 mod 64" "a mod 64 = b mod 64"
  shows "a = b"
proof -
  have "a div 4096 div 64 = b div 4096 div 64"
    using assms(1) by (simp add: div_mult2_eq [symmetric])
  then have "a div 4096 = b div 4096" using assms(2) by (rule dm2)
  then show ?thesis using assms(3,4) by (rule dm3)
qed

lemma hd_utf8_class:
  assumes "valid_cp x"
  shows "(hd (utf8_bytes x) < 0x80) = (x < 0x80)"
    and "(hd (utf8_bytes x) < 0xE0) = (x < 0x800)"
    and "(hd (utf8_bytes x) < 0xF0) = (x < 0x10000)"
  using assms by (auto simp: utf8_bytes_def valid_cp_def)

lemma utf8_prefix_free:
  assumes "valid_cp x" "valid_cp y" and eq: "utf8_bytes x @ r = utf8_bytes y @ r'"
  shows "x = y \<and> r = r'"
proof -
  have "hd (utf8_bytes x @ r) = hd (utf8_bytes y @ r')" using eq by simp
  then have hd: "hd (utf8_bytes x) = hd (utf8_bytes y)"
    by (simp add: utf8_bytes_nonempty)
  have same: "(x < 0x80) = (y < 0x80)" "(x < 0x800) = (y < 0x800)" "(x < 0x10000) = (y < 0x10000)"
    using hd_utf8_class [OF assms(1)] hd_utf8_class [OF assms(2)] hd by simp_all
  consider "x < 0x80" | "\<not> x < 0x80" "x < 0x800" | "\<not> x < 0x800" "x < 0x10000" | "\<not> x < 0x10000"
    by linarith
  then show ?thesis
  proof cases
    case 1
    with same eq show ?thesis by (simp add: utf8_bytes_def)
  next
    case 2
    with same have "\<not> y < 0x80" "y < 0x800" by simp_all
    with 2 eq have "x div 64 = y div 64" "x mod 64 = y mod 64" "r = r'"
      by (simp_all add: utf8_bytes_def)
    then show ?thesis using dm2 by blast
  next
    case 3
    with same have "\<not> y < 0x800" "y < 0x10000" by simp_all
    with 3 eq have "x div 4096 = y div 4096" "x div 64 mod 64 = y div 64 mod 64"
      "x mod 64 = y mod 64" "r = r'"
      by (simp_all add: utf8_bytes_def)
    then show ?thesis using dm3 by blast
  next
    case 4
    with same have "\<not> y < 0x10000" by simp
    with 4 eq have "x div 262144 = y div 262144" "x div 4096 mod 64 = y div 4096 mod 64"
      "x div 64 mod 64 = y div 64 mod 64" "x mod 64 = y mod 64" "r = r'"
      by (simp_all add: utf8_bytes_def)
    then show ?thesis using dm4 by blast
  qed
qed

lemma utf8_concat_inj:
  assumes "\<forall>x \<in> set xs. valid_cp x" "\<forall>y \<in> set ys. valid_cp y"
    and "concat (map utf8_bytes xs) = concat (map utf8_bytes ys)"
  shows "xs = ys"
  using assms
proof (induction xs arbitrary: ys)
  case Nil
  then show ?case
    by (cases ys) (simp_all add: utf8_bytes_nonempty)
next
  case (Cons x xs)
  show ?case
  proof (cases ys)
    case Nil
    with Cons.prems show ?thesis by (simp add: utf8_bytes_nonempty)
  next
    case (Cons y ys')
    with Cons.prems have "utf8_bytes x @ concat (map utf8_bytes xs)
        = utf8_bytes y @ concat (map utf8_bytes ys')" by simp
    moreover have "valid_cp x" "valid_cp y" using Cons.prems Cons by simp_all
    ultimately have "x = y" "concat (map utf8_bytes xs) = concat (map utf8_bytes ys')"
      using utf8_prefix_free by blast+
    moreover from this Cons.IH [of ys'] Cons.prems Cons have "xs = ys'" by simp
    ultimately show ?thesis using Cons by simp
  qed
qed

lemma unat16_bound: "unat (u :: 16 word) < 65536"
  using unsigned_less [of u, where ?'a = nat] by simp

lemma scalar_valid: "valid_cp (scalar u)"
  using unat16_bound [of u] by (simp add: scalar_def valid_cp_def)

lemma code_points_valid: "cp \<in> set (code_points s) \<Longrightarrow> valid_cp cp"
proof (induction s arbitrary: cp rule: code_points.induct)
  case 1
  then show ?case by simp
next
  case (2 u)
  then show ?case by (simp add: scalar_valid)
next
  case (3 u v us)
  show ?case
  proof (cases "is_high_surrogate u \<and> is_low_surrogate v")
    case True
    then have "0x10000 + (unat u - 0xD800) * 0x400 + (unat v - 0xDC00) < (0x110000 :: nat)"
      by (auto simp: is_high_surrogate_def is_low_surrogate_def)
    with True 3 show ?thesis by (auto simp: valid_cp_def)
  next
    case False
    with 3 show ?thesis by (auto simp: scalar_valid)
  qed
qed

lemma scalar_nonzero: "u \<noteq> 0 \<Longrightarrow> scalar u \<noteq> 0"
  by (simp add: scalar_def unat_gt_0)

lemma code_points_nonzero: "0 \<notin> set s \<Longrightarrow> 0 \<notin> set (code_points s)"
  by (induction s rule: code_points.induct) (auto simp: scalar_nonzero)

lemma units_scalar:
  "\<not> is_high_surrogate u \<Longrightarrow> \<not> is_low_surrogate u \<Longrightarrow> utf16_units (scalar u) = [u]"
  using unat16_bound [of u] by (simp add: scalar_def utf16_units_def)

lemma units_pair:
  assumes "is_high_surrogate u" "is_low_surrogate v"
  shows "utf16_units (0x10000 + (unat u - 0xD800) * 0x400 + (unat v - 0xDC00)) = [u, v]"
proof -
  define h where "h = unat u - 0xD800"
  define l where "l = unat v - 0xDC00"
  have h: "h < 0x400" "0xD800 + h = unat u"
    using assms(1) by (auto simp: h_def is_high_surrogate_def)
  have l: "l < 0x400" "0xDC00 + l = unat v"
    using assms(2) by (auto simp: l_def is_low_surrogate_def)
  have "(h * 0x400 + l) div 0x400 = h" "(h * 0x400 + l) mod 0x400 = l"
    using l(1) by simp_all
  then have "utf16_units (0x10000 + h * 0x400 + l) = [of_nat (0xD800 + h), of_nat (0xDC00 + l)]"
    by (simp add: utf16_units_def)
  then show ?thesis
    unfolding h(2) l(2) by (simp add: h_def l_def)
qed

lemma code_points_inverse:
  "well_formed s \<Longrightarrow> concat (map utf16_units (code_points s)) = s"
proof (induction s rule: code_points.induct)
  case 1
  then show ?case by simp
next
  case (2 u)
  then show ?case by (simp add: units_scalar)
next
  case (3 u v us)
  show ?case
  proof (cases "is_high_surrogate u")
    case True
    with 3 show ?thesis by (simp add: units_pair)
  next
    case False
    with 3 show ?thesis by (simp add: units_scalar)
  qed
qed

lemma code_points_inj:
  assumes "well_formed s" "well_formed t" "code_points s = code_points t"
  shows "s = t"
proof -
  have "s = concat (map utf16_units (code_points s))"
    by (rule code_points_inverse [OF assms(1), symmetric])
  also have "\<dots> = concat (map utf16_units (code_points t))"
    by (simp only: assms(3))
  also have "\<dots> = t"
    by (rule code_points_inverse [OF assms(2)])
  finally show ?thesis .
qed

lemma byte_of_nat_inj:
  assumes "\<forall>b \<in> set xs. b < 256" "\<forall>b \<in> set ys. b < 256"
    and "map of_nat xs = (map of_nat ys :: byte list)"
  shows "xs = ys"
  using assms
proof (induction xs arbitrary: ys)
  case Nil
  then show ?case by simp
next
  case (Cons x xs)
  then obtain y ys' where ys: "ys = y # ys'" by (cases ys) auto
  with Cons.prems have eq: "(of_nat x :: byte) = of_nat y" and lt: "x < 256" "y < 256"
    by simp_all
  from eq have "unat (of_nat x :: byte) = unat (of_nat y :: byte)"
    by (rule arg_cong)
  then have "x mod 256 = y mod 256"
    unfolding unat_of_nat by simp
  with lt have "x = y" by simp
  moreover have "xs = ys'" using Cons.IH [of ys'] Cons.prems ys by simp
  ultimately show ?case using ys by simp
qed

lemma encoded_bytes_bound:
  assumes "b \<in> set (concat (map utf8_bytes (code_points u)))"
  shows "b < 256"
proof -
  from assms obtain cp where cp: "cp \<in> set (code_points u)" "b \<in> set (utf8_bytes cp)"
    by auto
  from cp(1) have "valid_cp cp" by (rule code_points_valid)
  then show ?thesis using cp(2) by (rule utf8_bytes_bound)
qed

lemma encode_inj:
  assumes "well_formed s" "well_formed t" "encode s = encode t"
  shows "s = t"
proof -
  have bs: "\<forall>b \<in> set (concat (map utf8_bytes (code_points s))). b < 256"
    and bt: "\<forall>b \<in> set (concat (map utf8_bytes (code_points t))). b < 256"
    using encoded_bytes_bound by blast+
  have "map of_nat (concat (map utf8_bytes (code_points s)))
      = (map of_nat (concat (map utf8_bytes (code_points t))) :: byte list)"
    using assms(3) by (simp only: encode_def)
  with bs bt have eq: "concat (map utf8_bytes (code_points s)) = concat (map utf8_bytes (code_points t))"
    by (rule byte_of_nat_inj)
  have vs: "\<forall>x \<in> set (code_points s). valid_cp x" and vt: "\<forall>x \<in> set (code_points t). valid_cp x"
    using code_points_valid by blast+
  from vs vt eq have "code_points s = code_points t"
    by (rule utf8_concat_inj)
  with assms(1,2) show ?thesis by (rule code_points_inj)
qed

lemma encode_nonzero:
  assumes "0 \<notin> set s"
  shows "0 \<notin> set (encode s)"
proof
  assume "0 \<in> set (encode s)"
  then obtain cp b where cp: "cp \<in> set (code_points s)" "b \<in> set (utf8_bytes cp)"
    and z: "(of_nat b :: byte) = 0"
    by (auto simp: encode_def)
  from cp have "b < 256" using code_points_valid utf8_bytes_bound by blast
  moreover from z have "unat (of_nat b :: byte) = 0" by simp
  ultimately have "b = 0" unfolding unat_of_nat by simp
  moreover from cp(1) assms have "cp \<noteq> 0" using code_points_nonzero by metis
  ultimately show False using cp(2) utf8_bytes_nonzero by metis
qed

lemma encode_cons_ascii:
  assumes "unat u < 0x80"
  shows "encode (u # us) = of_nat (unat u) # encode us"
proof -
  have ns: "\<not> is_high_surrogate u" "\<not> is_low_surrogate u"
    using assms by (simp_all add: is_high_surrogate_def is_low_surrogate_def)
  then have "code_points (u # us) = unat u # code_points us"
    by (cases us) (simp_all add: scalar_def)
  then show ?thesis
    using assms by (simp add: encode_def utf8_bytes_def)
qed

lemma encode_ascii:
  "\<forall>u \<in> set s. unat u < 0x80 \<Longrightarrow> encode s = map (\<lambda>u. of_nat (unat u)) s"
proof (induction s)
  case Nil
  then show ?case by (simp add: encode_def)
next
  case (Cons u us)
  then have "encode us = map (\<lambda>u. of_nat (unat u)) us" "unat u < 0x80" by simp_all
  then show ?case by (simp only: encode_cons_ascii list.map)
qed

lemma well_formed_ascii: "\<forall>u \<in> set s. unat u < 0x80 \<Longrightarrow> well_formed s"
  by (induction s rule: well_formed.induct)
    (auto simp: is_high_surrogate_def is_low_surrogate_def)

lemma unat_of_char16: "unat (of_char c :: 16 word) = of_char c"
proof -
  have "(of_char c :: nat) < 256" by (rule nat_of_char_less_256)
  then have lt: "(of_char c :: nat) < 65536" by linarith
  have "(of_char c :: 16 word) = of_nat (of_char c)" by (simp only: of_nat_of_char)
  then have "unat (of_char c :: 16 word) = (of_char c :: nat) mod 65536"
    by (simp add: unat_of_nat)
  with lt show ?thesis by simp
qed

lemma byte_of_char16: "of_nat (unat (of_char c :: 16 word)) = (of_char c :: byte)"
  by (simp only: unat_of_char16 of_nat_of_char)

lemma encode_js_string:
  assumes "\<forall>c \<in> set cs. (of_char c :: nat) < 0x80"
  shows "encode (js_string cs) = map of_char cs"
    and "well_formed (js_string cs)"
proof -
  have a: "\<forall>u \<in> set (js_string cs). unat u < 0x80"
    using assms by (auto simp: js_string_def unat_of_char16)
  show "well_formed (js_string cs)" using a by (rule well_formed_ascii)
  have "map (\<lambda>u. of_nat (unat u)) (js_string cs) = (map of_char cs :: byte list)"
    unfolding js_string_def map_map comp_def byte_of_char16 ..
  then show "encode (js_string cs) = map of_char cs"
    by (simp only: encode_ascii [OF a])
qed

lemma key_length_aux:
  "length (fold (\<lambda>i hash. hash[i mod 32 := (hash ! (i mod 32)) XOR (data ! i)]) is (h :: byte list)) = length h"
  by (induction "is" arbitrary: h) auto

lemma key_length: "length (generateLicenseKey seed) = 32"
  by (simp add: generateLicenseKey_def Let_def key_length_aux)

lemma key_prefix:
  fixes data :: "byte list"
  assumes "k \<le> length data" and "k \<le> 32"
  shows "fold (\<lambda>i hash. hash[i mod 32 := (hash ! (i mod 32)) XOR (data ! i)]) [0..<k] (replicate 32 0)
         = take k data @ replicate (32 - k) 0"
  using assms
proof (induction k)
  case 0
  then show ?case by simp
next
  case (Suc k)
  then have k: "k < length data" "k < 32" "k mod 32 = k" by auto
  have rep: "replicate (32 - k) (0::byte) = 0 # replicate (32 - Suc k) 0"
    using k by (cases "32 - k") (auto simp: Suc_diff_Suc)
  have "fold (\<lambda>i hash. hash[i mod 32 := (hash ! (i mod 32)) XOR (data ! i)]) [0..<Suc k] (replicate 32 0)
        = (take k data @ replicate (32 - k) 0)[k := ((take k data @ replicate (32 - k) 0) ! k) XOR (data ! k)]"
    using Suc k by simp
  also have "\<dots> = take k data @ (data ! k) # replicate (32 - Suc k) 0"
    using k by (simp add: rep list_update_append nth_append del: replicate.simps)
  also have "\<dots> = take (Suc k) data @ replicate (32 - Suc k) 0"
    using k by (simp add: take_Suc_conv_app_nth)
  finally show ?case .
qed

lemma key_short:
  "length (encode seed) \<le> 32 \<Longrightarrow>
   generateLicenseKey seed = encode seed @ replicate (32 - length (encode seed)) 0"
  using key_prefix [of "length (encode seed)" "encode seed"]
  by (simp add: generateLicenseKey_def Let_def)

lemma key_33:
  assumes "encode seed = c1 # body @ [c2]" and "length body = 31"
  shows "generateLicenseKey seed = (c1 XOR c2) # body"
proof -
  let ?data = "c1 # body @ [c2]"
  let ?f = "\<lambda>i (hash :: byte list). hash[i mod 32 := (hash ! (i mod 32)) XOR (?data ! i)]"
  have len: "length ?data = Suc 32" using assms(2) by simp
  have first: "fold ?f [0..<32] (replicate 32 0) = c1 # body"
    using key_prefix [of 32 ?data] assms(2) by simp
  have last: "?data ! 32 = c2"
    using assms(2) by (simp add: nth_append)
  have "generateLicenseKey seed = fold ?f [0..<Suc 32] (replicate 32 0)"
    unfolding generateLicenseKey_def Let_def assms(1) len ..
  also have "\<dots> = ?f 32 (fold ?f [0..<32] (replicate 32 0))"
    by (simp only: upt_Suc_append le0 fold_append fold.simps o_apply id_apply)
  also have "\<dots> = (c1 XOR c2) # body"
    unfolding first last by simp
  finally show ?thesis .
qed

lemma key_inj_bytes:
  assumes "length (encode s) \<le> 32" "length (encode t) \<le> 32"
    and "0 \<notin> set (encode s)" "0 \<notin> set (encode t)"
    and "generateLicenseKey s = generateLicenseKey t"
  shows "encode s = encode t"
proof -
  have tw: "takeWhile (\<lambda>b. b \<noteq> 0) (xs @ replicate n 0) = xs" if "0 \<notin> set xs"
    for xs :: "byte list" and n
  proof -
    have "\<And>x. x \<in> set xs \<Longrightarrow> x \<noteq> 0" using that by metis
    then show ?thesis by (cases n) simp_all
  qed
  have "encode s @ replicate (32 - length (encode s)) 0
      = encode t @ replicate (32 - length (encode t)) 0"
    using assms(1,2,5) by (simp add: key_short)
  then have "takeWhile (\<lambda>b. b \<noteq> 0) (encode s @ replicate (32 - length (encode s)) 0)
           = takeWhile (\<lambda>b. b \<noteq> 0) (encode t @ replicate (32 - length (encode t)) 0)"
    by simp
  then show ?thesis
    unfolding tw [OF assms(3)] tw [OF assms(4)] .
qed

lemma key_inj_seeds:
  assumes "well_formed s" "well_formed t" "0 \<notin> set s" "0 \<notin> set t"
    and "length (encode s) \<le> 32" "length (encode t) \<le> 32"
    and "generateLicenseKey s = generateLicenseKey t"
  shows "s = t"
proof -
  have "encode s = encode t"
    using assms(5,6) encode_nonzero [OF assms(3)] encode_nonzero [OF assms(4)] assms(7)
    by (rule key_inj_bytes)
  with assms(1,2) show ?thesis by (rule encode_inj)
qed

lemma lone_surrogates_collide:
  "encode [0xD800] = [0xEF, 0xBF, 0xBD] \<and> encode [0xDC00] = [0xEF, 0xBF, 0xBD]
   \<and> encode [0xFFFD] = [0xEF, 0xBF, 0xBD]
   \<and> generateLicenseKey [0xD800] = generateLicenseKey [0xDC00]"
  by (simp add: generateLicenseKey_def encode_def scalar_def is_high_surrogate_def
      is_low_surrogate_def utf8_bytes_def)

lemma BET_SEED_bytes: "BET_SEED = [98, 101, 116]"
  unfolding BET_SEED_def by (subst encode_js_string(1)) simp_all

text \<open>
  C8, as stated: \<open>generateLicenseKey\<close> maps every seed to a key of 32 bytes, and no two
  distinct seeds give the same key. The second half fails: the bytes of the seed are
  folded into 32 slots with exclusive or, so the two 33-character seeds below, which
  differ in their first and last characters, have the same key (the first and the last
  byte meet in slot 0, and p XOR r = c XOR a).
\<close>

theorem generateLicenseKey_collision:
  "js_string ''portuna-license-seed-for-market-r'' \<noteq> js_string ''cortuna-license-seed-for-market-a''
   \<and> generateLicenseKey (js_string ''portuna-license-seed-for-market-r'')
       = generateLicenseKey (js_string ''cortuna-license-seed-for-market-a'')"
proof -
  have x: "(of_char CHR ''p'' :: byte) XOR of_char CHR ''r'' = of_char CHR ''c'' XOR of_char CHR ''a''"
    by simp
  have e1: "encode (js_string ''portuna-license-seed-for-market-r'')
      = of_char CHR ''p'' # map of_char ''ortuna-license-seed-for-market-'' @ [of_char CHR ''r'']"
    by (subst encode_js_string(1)) simp_all
  have e2: "encode (js_string ''cortuna-license-seed-for-market-a'')
      = of_char CHR ''c'' # map of_char ''ortuna-license-seed-for-market-'' @ [of_char CHR ''a'']"
    by (subst encode_js_string(1)) simp_all
  have k1: "generateLicenseKey (js_string ''portuna-license-seed-for-market-r'')
      = (of_char CHR ''p'' XOR of_char CHR ''r'') # map of_char ''ortuna-license-seed-for-market-''"
    using e1 by (rule key_33) simp
  have k2: "generateLicenseKey (js_string ''cortuna-license-seed-for-market-a'')
      = (of_char CHR ''c'' XOR of_char CHR ''a'') # map of_char ''ortuna-license-seed-for-market-''"
    using e2 by (rule key_33) simp
  have d: "js_string ''portuna-license-seed-for-market-r'' \<noteq> js_string ''cortuna-license-seed-for-market-a''"
    by (simp add: js_string_def)
  from d k1 k2 x show ?thesis by simp
qed

text \<open>
  C8, amended: \<open>generateLicenseKey\<close> maps every seed to a key of 32 bytes. Two seeds
  whose UTF-8 encodings have at most 32 bytes, none of them zero, and differ, give
  distinct keys (the key is then the encoding itself, filled up with zero bytes). So two
  distinct seeds give distinct keys when both are well formed (no surrogate outside a
  pair), contain no NUL character and encode to at most 32 bytes. Seeds with a surrogate
  outside a pair can share an encoding and then share a key (\<open>lone_surrogates_collide\<close>).
\<close>

theorem generateLicenseKey_short_injective:
  "length (generateLicenseKey seed) = 32
   \<and> (length (encode s) \<le> 32 \<and> length (encode t) \<le> 32
        \<and> 0 \<notin> set (encode s) \<and> 0 \<notin> set (encode t)
        \<and> generateLicenseKey s = generateLicenseKey t \<longrightarrow> encode s = encode t)
   \<and> (well_formed s \<and> well_formed t \<and> 0 \<notin> set s \<and> 0 \<notin> set t
        \<and> length (encode s) \<le> 32 \<and> length (encode t) \<le> 32
        \<and> generateLicenseKey s = generateLicenseKey t \<longrightarrow> s = t)"
  using key_length [of seed] key_inj_bytes [of s t] key_inj_seeds [of s t] by blast

theorem generateLicenseKey_short_injective_witness:
  "length (generateLicenseKey (js_string ''unique-license-string'')) = 32
   \<and> well_formed (js_string ''license-A'') \<and> well_formed (js_string ''license-B'')
   \<and> length (encode (js_string ''license-A'')) = 9
   \<and> generateLicenseKey (js_string ''license-A'') \<noteq> generateLicenseKey (js_string ''license-B'')"
proof -
  have ea: "encode (js_string ''license-A'') = map of_char ''license-A''"
    by (subst encode_js_string(1)) simp_all
  have eb: "encode (js_string ''license-B'') = map of_char ''license-B''"
    by (subst encode_js_string(1)) simp_all
  have wa: "well_formed (js_string ''license-A'')" by (rule encode_js_string(2)) simp
  have wb: "well_formed (js_string ''license-B'')" by (rule encode_js_string(2)) simp
  have h: "length (encode (js_string ''license-A'')) \<le> 32"
    "length (encode (js_string ''license-B'')) \<le> 32"
    "length (encode (js_string ''license-A'')) = 9"
    "0 \<notin> set (js_string ''license-A'')" "0 \<notin> set (js_string ''license-B'')"
    "js_string ''license-A'' \<noteq> js_string ''license-B''"
    by (simp_all add: ea eb) (simp_all add: js_string_def)
  show ?thesis
    using generateLicenseKey_short_injective
      [of "js_string ''unique-license-string''" "js_string ''license-A''" "js_string ''license-B''"]
      wa wb h
    by blast
qed

section \<open>Market accounting: properties\<close>

lemmas op_defs = place_bet_def withdraw_bet_def resolve_market_def oracle_resolve_market_def
  cancel_market_def claim_winnings_def claim_refund_def assign_oracle_def

lemma step_status:
  assumes "step findPDA programId s r = Inr s'" and "markets s k = Some m"
  shows "\<exists>m'. markets s' k = Some m' \<and> forward (status m) (status m')"
  using assms
  by (cases r) (auto simp: op_defs forward_def Let_def split: option.splits if_splits)

lemma step_addressed:
  assumes "step findPDA programId s r = Inr s'" and "bets_addressed findPDA programId s"
  shows "bets_addressed findPDA programId s'"
  using assms
  by (cases r) (auto simp: op_defs bets_addressed_def Let_def split: option.splits if_splits)

lemma step_claimed:
  assumes "step findPDA programId s r = Inr s'" and "bets s a = Some b" and "claimed b"
  shows "\<exists>b'. bets s' a = Some b' \<and> claimed b'"
  using assms
  by (cases r) (auto simp: op_defs Let_def split: option.splits if_splits)

lemma commit_status:
  assumes "markets s k = Some m"
  shows "\<exists>m'. markets (commit findPDA programId s r) k = Some m' \<and> forward (status m) (status m')"
proof (cases "step findPDA programId s r")
  case (Inl e)
  with assms show ?thesis by (simp add: commit_def forward_def)
next
  case (Inr s')
  with assms step_status [OF Inr assms] show ?thesis by (simp add: commit_def)
qed

lemma forward_trans: "forward a b \<Longrightarrow> forward b c \<Longrightarrow> forward a c"
  by (auto simp: forward_def)

lemma run_status:
  "markets s k = Some m \<Longrightarrow>
   \<exists>m'. markets (run findPDA programId s rs) k = Some m' \<and> forward (status m) (status m')"
proof (induction rs arbitrary: s m)
  case Nil
  then show ?case by (simp add: run_def forward_def)
next
  case (Cons r rs)
  from commit_status [OF Cons.prems, of findPDA programId r]
  obtain m1 where m1: "markets (commit findPDA programId s r) k = Some m1"
    "forward (status m) (status m1)" by blast
  from Cons.IH [OF m1(1)]
  obtain m2 where "markets (run findPDA programId (commit findPDA programId s r) rs) k = Some m2"
    "forward (status m1) (status m2)" by blast
  with m1(2) show ?case
    by (auto simp: run_def intro: forward_trans)
qed

lemma run_addressed:
  "bets_addressed findPDA programId s \<Longrightarrow> bets_addressed findPDA programId (run findPDA programId s rs)"
proof (induction rs arbitrary: s)
  case Nil
  then show ?case by (simp add: run_def)
next
  case (Cons r rs)
  have "bets_addressed findPDA programId (commit findPDA programId s r)"
    using Cons.prems step_addressed [of findPDA programId s r]
    by (cases "step findPDA programId s r") (simp_all add: commit_def)
  from Cons.IH [OF this] show ?case by (simp add: run_def)
qed

lemma run_claimed:
  "bets s a = Some b \<Longrightarrow> claimed b \<Longrightarrow>
   \<exists>b'. bets (run findPDA programId s rs) a = Some b' \<and> claimed b'"
proof (induction rs arbitrary: s b)
  case Nil
  then show ?case by (simp add: run_def)
next
  case (Cons r rs)
  have "\<exists>b1. bets (commit findPDA programId s r) a = Some b1 \<and> claimed b1"
    using Cons.prems step_claimed [of findPDA programId s r _ a b]
    by (cases "step findPDA programId s r") (simp_all add: commit_def)
  then obtain b1 where "bets (commit findPDA programId s r) a = Some b1" "claimed b1" by blast
  from Cons.IH [OF this] show ?case by (simp add: run_def)
qed

lemma bets_addressed_unique:
  assumes "bets_addressed findPDA programId s"
    and "bets s k1 = Some b1" and "bets s k2 = Some b2"
    and "market b1 = market b2" and "bettor b1 = bettor b2"
  shows "k1 = k2 \<and> b1 = b2"
proof -
  from assms(1,2) have "k1 = bet_address findPDA programId (market b1) (bettor b1)"
    unfolding bets_addressed_def by blast
  moreover from assms(1,3) have "k2 = bet_address findPDA programId (market b2) (bettor b2)"
    unfolding bets_addressed_def by blast
  ultimately have "k1 = k2" using assms(4,5) by simp
  with assms(2,3) show ?thesis by simp
qed

lemma place_bet_existing:
  assumes "bets s (bet_address findPDA programId marketKey caller) \<noteq> None"
  shows "isl (place_bet findPDA programId s now caller marketKey idx)"
  using assms by (auto simp: place_bet_def Let_def split: option.splits)

lemma place_bet_AlreadyBet:
  assumes "bets s (bet_address findPDA programId marketKey caller) \<noteq> None"
    and "markets s marketKey = Some m" and "status m = Open" and "now < bettingDeadline m"
    and "idx < length (outcomes m)"
  shows "place_bet findPDA programId s now caller marketKey idx = Inl AlreadyBet"
  using assms by (auto simp: place_bet_def)

lemma place_bet_twice:
  assumes "place_bet findPDA programId s now caller marketKey idx = Inr s'"
  shows "place_bet findPDA programId s' now caller marketKey idx = Inl AlreadyBet"
  using assms
  by (auto simp: place_bet_def Let_def split: option.splits if_splits)

lemma cancel_cancelled:
  assumes "markets s k = Some m" and "status m = Cancelled"
  shows "isl (cancel_market s caller k)"
    and "caller = creator m \<Longrightarrow> cancel_market s caller k = Inl MarketNotOpen"
    and "commit findPDA programId s (CancelMarket caller k) = s"
  using assms by (auto simp: cancel_market_def commit_def)

lemma claim_winnings_claimed:
  assumes "markets s k = Some m" and "status m = Resolved"
    and "bets s (bet_address findPDA programId k caller) = Some b" and "claimed b"
  shows "claim_winnings findPDA programId s caller k = Inl AlreadyClaimed"
  using assms by (simp add: claim_winnings_def)

lemma claim_refund_claimed:
  assumes "markets s k = Some m" and "status m = Cancelled"
    and "bets s (bet_address findPDA programId k caller) = Some b" and "claimed b"
  shows "claim_refund findPDA programId s caller k = Inl AlreadyClaimed"
  using assms by (simp add: claim_refund_def)

lemma claim_winnings_marks:
  assumes "claim_winnings findPDA programId s caller k = Inr s'"
  shows "\<exists>m b. markets s' k = Some m \<and> status m = Resolved
           \<and> bets s' (bet_address findPDA programId k caller) = Some b \<and> claimed b"
  using assms
  by (auto simp: claim_winnings_def Let_def split: option.splits if_splits)

lemma claim_refund_marks:
  assumes "claim_refund findPDA programId s caller k = Inr s'"
  shows "\<exists>m b. markets s' k = Some m \<and> status m = Cancelled
           \<and> bets s' (bet_address findPDA programId k caller) = Some b \<and> claimed b"
  using assms
  by (auto simp: claim_refund_def Let_def split: option.splits if_splits)

lemma claim_winnings_again:
  assumes "claim_winnings findPDA programId s caller k = Inr s'"
  shows "claim_winnings findPDA programId (run findPDA programId s' rs) caller k = Inl AlreadyClaimed"
proof -
  from claim_winnings_marks [OF assms] obtain m b where
    m: "markets s' k = Some m" "status m = Resolved" and
    b: "bets s' (bet_address findPDA programId k caller) = Some b" "claimed b" by blast
  from run_status [OF m(1), of findPDA programId rs] m(2) obtain m' where
    "markets (run findPDA programId s' rs) k = Some m'" "status m' = Resolved"
    by (auto simp: forward_def)
  moreover from run_claimed [OF b, of findPDA programId rs] obtain b' where
    "bets (run findPDA programId s' rs) (bet_address findPDA programId k caller) = Some b'" "claimed b'"
    by blast
  ultimately show ?thesis by (rule claim_winnings_claimed)
qed

lemma claim_refund_again:
  assumes "claim_refund findPDA programId s caller k = Inr s'"
  shows "claim_refund findPDA programId (run findPDA programId s' rs) caller k = Inl AlreadyClaimed"
proof -
  from claim_refund_marks [OF assms] obtain m b where
    m: "markets s' k = Some m" "status m = Cancelled" and
    b: "bets s' (bet_address findPDA programId k caller) = Some b" "claimed b" by blast
  from run_status [OF m(1), of findPDA programId rs] m(2) obtain m' where
    "markets (run findPDA programId s' rs) k = Some m'" "status m' = Cancelled"
    by (auto simp: forward_def)
  moreover from run_claimed [OF b, of findPDA programId rs] obtain b' where
    "bets (run findPDA programId s' rs) (bet_address findPDA programId k caller) = Some b'" "claimed b'"
    by blast
  ultimately show ?thesis by (rule claim_refund_claimed)
qed

lemma withdraw_bet_twice:
  assumes "withdraw_bet findPDA programId s now caller k = Inr s'"
  shows "withdraw_bet findPDA programId s' now caller k = Inl AlreadyClaimed"
  using assms
  by (auto simp: withdraw_bet_def Let_def split: option.splits if_splits)

text \<open>
  The payout of \<open>claim_winnings\<close> and the estimate of the client are the same function of
  the totals: the estimate takes the totals without the bet, the settlement the final
  totals, which include it.
\<close>

lemma winnings_estimate:
  "winnings m (b\<lparr> poolAmount := netAmount (calculateFees stake pBps cBps lBps) \<rparr>)
     = calculatePotentialWinnings stake
         (totalAmount (outcomes m ! winningOutcome m) - netAmount (calculateFees stake pBps cBps lBps))
         (totalPool m - netAmount (calculateFees stake pBps cBps lBps)) (bonusPool m)
         pBps cBps lBps"
  by (simp add: winnings_def calculatePotentialWinnings_def Let_def)

lemmas test_defs = test_ledger_def test_market_def test_protocol_def BET_AMOUNT_def
  test_findPDA_def programKey_def authorityKey_def treasuryKey_def creatorKey_def bettor1_def
  bettor2_def tokenMintKey_def marketPDA_def

lemmas eval_defs = run_def commit_def op_defs bet_address_def getBetPDA_def transfer_def
  winnings_def stake_share_def calculateFees_def BPS_DENOMINATOR_def bn_div_def Let_def
  BET_SEED_bytes

lemma test_first_bet:
  "place_bet test_findPDA programKey test_ledger 10 bettor1 marketPDA 0
     = Inr (run test_findPDA programKey test_ledger [PlaceBet 10 bettor1 marketPDA 0])"
  by (simp add: eval_defs test_defs)

lemma test_cancelled:
  "markets (run test_findPDA programKey test_ledger [CancelMarket creatorKey marketPDA]) marketPDA
     = Some (test_market\<lparr> status := Cancelled \<rparr>)"
  by (simp add: eval_defs test_defs)

lemma test_first_claim:
  "claim_winnings test_findPDA programKey scenario_B bettor1 marketPDA
     = Inr (run test_findPDA programKey scenario_B [ClaimWinnings bettor1 marketPDA])"
  by (simp add: scenario_B_def eval_defs test_defs)

lemma test_first_refund:
  "claim_refund test_findPDA programKey scenario_cancelled bettor1 marketPDA
     = Inr (run test_findPDA programKey scenario_cancelled [ClaimRefund bettor1 marketPDA])"
  by (simp add: scenario_cancelled_def eval_defs test_defs)

text \<open>
  C4, as stated: in the market of the fixture, with fees of (50, 50, 500) basis points,
  two bets of 10,000,000 on opposite outcomes and outcome 0 the winner, \<open>claim_winnings\<close>
  pays the bettor of outcome 0
  poolAmount * (totalPool + bonusPool) / winningOutcomeTotal
  = 9,400,000 * (18,800,000 + 1,000,000) / 9,400,000 = 19,800,000, and the estimate of
  \<open>calculatePotentialWinnings\<close> on the same final totals is the same amount. The payout
  is 19,800,000, but the estimate on the final totals (9,400,000 on outcome 0, a pool of
  18,800,000, a bonus pool of 1,000,000) is 14,600,000: the estimator adds the net amount
  of the bet to the outcome total and to the pool, which the final totals already contain.
\<close>

theorem scenario_B_estimate_on_final_totals:
  "(case claim_winnings test_findPDA programKey scenario_B bettor1 marketPDA of
      Inl e \<Rightarrow> False
    | Inr s \<Rightarrow> balances s (Wallet bettor1) - balances scenario_B (Wallet bettor1) = 19800000)
   \<and> map_option (\<lambda>m. (betAmount m, totalAmount (outcomes m ! winningOutcome m), totalPool m,
                       bonusPool m)) (markets scenario_B marketPDA)
       = Some (10000000, 9400000, 18800000, 1000000)
   \<and> (protocolFeeBps (protocol scenario_B), creatorFeeBps (protocol scenario_B),
        poolFeeBps (protocol scenario_B)) = (50, 50, 500)
   \<and> calculatePotentialWinnings 10000000 9400000 18800000 1000000 50 50 500 = 14600000
   \<and> calculatePotentialWinnings 10000000 9400000 18800000 1000000 50 50 500 \<noteq> 19800000"
  by (simp add: scenario_B_def eval_defs test_defs calculatePotentialWinnings_def)

text \<open>
  C4, amended: in the same scenario \<open>claim_winnings\<close> pays the bettor of outcome 0
  poolAmount * (totalPool + bonusPool) / winningOutcomeTotal
  = 9,400,000 * (18,800,000 + 1,000,000) / 9,400,000 = 19,800,000. The estimate of
  \<open>calculatePotentialWinnings\<close> is that amount when it is given the final totals without
  the bet's own net amount in the outcome total and in the pool (nothing on outcome 0, a
  pool of 9,400,000, the final bonus pool of 1,000,000); these are not totals that the
  ledger holds at any time, since the final bonus pool includes the pool fee of the bet.
  In general the payout for a bet whose poolAmount is the net amount of a stake is the
  estimate for that stake on the totals without the bet.
\<close>

theorem scenario_B_claim_winnings:
  "(map_option (\<lambda>m. (status m, winningOutcome m, totalPool m, bonusPool m, map totalAmount (outcomes m)))
        (markets scenario_B marketPDA)
      = Some (Resolved, 0, 18800000, 1000000, [9400000, 9400000])
    \<and> map_option (\<lambda>b. (outcomeIndex b, poolAmount b, claimed b))
        (bets scenario_B (bet_address test_findPDA programKey marketPDA bettor1))
      = Some (0, 9400000, False)
    \<and> (case claim_winnings test_findPDA programKey scenario_B bettor1 marketPDA of
          Inl e \<Rightarrow> False
        | Inr s \<Rightarrow> balances s (Wallet bettor1) = balances scenario_B (Wallet bettor1) + 19800000)
    \<and> (9400000 * (18800000 + 1000000)) div 9400000 = (19800000 :: int)
    \<and> map_option (\<lambda>m. calculatePotentialWinnings (betAmount m)
                      (totalAmount (outcomes m ! winningOutcome m) - 9400000)
                      (totalPool m - 9400000) (bonusPool m) 50 50 500)
        (markets scenario_B marketPDA)
      = Some 19800000
    \<and> calculatePotentialWinnings BET_AMOUNT 0 9400000 1000000 50 50 500 = 19800000)
   \<and> winnings m (b\<lparr> poolAmount := netAmount (calculateFees stake pBps cBps lBps) \<rparr>)
       = calculatePotentialWinnings stake
           (totalAmount (outcomes m ! winningOutcome m) - netAmount (calculateFees stake pBps cBps lBps))
           (totalPool m - netAmount (calculateFees stake pBps cBps lBps)) (bonusPool m)
           pBps cBps lBps"
proof (rule conjI)
  show "winnings m (b\<lparr> poolAmount := netAmount (calculateFees stake pBps cBps lBps) \<rparr>)
       = calculatePotentialWinnings stake
           (totalAmount (outcomes m ! winningOutcome m) - netAmount (calculateFees stake pBps cBps lBps))
           (totalPool m - netAmount (calculateFees stake pBps cBps lBps)) (bonusPool m)
           pBps cBps lBps"
    by (rule winnings_estimate)
qed (simp add: scenario_B_def eval_defs test_defs calculatePotentialWinnings_def)

text \<open>
  C5. There is at most one Bet record for a market and a bettor. The address of a Bet is
  computed from the tag "bet", the market address and the bettor's key and from nothing
  else; \<open>place_bet\<close> stores the record at that address, so a second \<open>place_bet\<close> of the
  same bettor on the same market finds the address taken: it never succeeds, and it fails
  with AlreadyBet (while the market is open, betting has not closed and the outcome index
  is valid, which is the case right after the first bet). In every ledger reached from one
  whose bets are stored at their own addresses, two Bet records of the same market and
  bettor are one record.
\<close>

theorem one_bet_per_bettor:
  "getBetPDA findPDA marketKey caller programId
     = findPDA [encode (js_string ''bet''), toBuffer marketKey, toBuffer caller] programId
   \<and> (bets s (bet_address findPDA programId marketKey caller) \<noteq> None \<longrightarrow>
        isl (place_bet findPDA programId s now caller marketKey idx))
   \<and> (bets s (bet_address findPDA programId marketKey caller) \<noteq> None
        \<and> markets s marketKey = Some m \<and> status m = Open \<and> now < bettingDeadline m
        \<and> idx < length (outcomes m) \<longrightarrow>
        place_bet findPDA programId s now caller marketKey idx = Inl AlreadyBet)
   \<and> (place_bet findPDA programId s now caller marketKey idx = Inr s' \<longrightarrow>
        bets s' (bet_address findPDA programId marketKey caller) \<noteq> None
        \<and> place_bet findPDA programId s' now caller marketKey idx = Inl AlreadyBet)
   \<and> (bets_addressed findPDA programId s0 \<longrightarrow>
        (\<forall>k1 k2 b1 b2.
           bets (run findPDA programId s0 rs) k1 = Some b1
           \<and> bets (run findPDA programId s0 rs) k2 = Some b2
           \<and> market b1 = market b2 \<and> bettor b1 = bettor b2 \<longrightarrow> k1 = k2 \<and> b1 = b2))"
proof -
  have derive: "getBetPDA findPDA marketKey caller programId
      = findPDA [encode (js_string ''bet''), toBuffer marketKey, toBuffer caller] programId"
    by (simp add: getBetPDA_def BET_SEED_def)
  have stored: "bets s' (bet_address findPDA programId marketKey caller) \<noteq> None"
    if "place_bet findPDA programId s now caller marketKey idx = Inr s'"
    using that by (auto simp: place_bet_def Let_def split: option.splits if_splits)
  have unique: "k1 = k2 \<and> b1 = b2"
    if "bets_addressed findPDA programId s0"
      and "bets (run findPDA programId s0 rs) k1 = Some b1"
      and "bets (run findPDA programId s0 rs) k2 = Some b2"
      and "market b1 = market b2" and "bettor b1 = bettor b2" for k1 k2 b1 b2
    using bets_addressed_unique [OF run_addressed [OF that(1)] that(2-5)] .
  show ?thesis
    using derive place_bet_existing [of s findPDA programId marketKey caller now idx]
      place_bet_AlreadyBet [of s findPDA programId marketKey caller m now idx]
      place_bet_twice [of findPDA programId s now caller marketKey idx s'] stored unique
    by blast
qed

theorem one_bet_per_bettor_witness:
  "place_bet test_findPDA programKey
       (run test_findPDA programKey test_ledger [PlaceBet 10 bettor1 marketPDA 0])
       10 bettor1 marketPDA 0 = Inl AlreadyBet
   \<and> place_bet test_findPDA programKey
       (run test_findPDA programKey test_ledger [PlaceBet 10 bettor1 marketPDA 0])
       30 bettor1 marketPDA 1 = Inl AlreadyBet
   \<and> bets_addressed test_findPDA programKey test_ledger
   \<and> bets (run test_findPDA programKey test_ledger [PlaceBet 10 bettor1 marketPDA 0])
       (bet_address test_findPDA programKey marketPDA bettor1) \<noteq> None"
proof -
  let ?s1 = "run test_findPDA programKey test_ledger [PlaceBet 10 bettor1 marketPDA 0]"
  have init: "bets_addressed test_findPDA programKey test_ledger"
    by (simp add: bets_addressed_def test_ledger_def)
  have m1: "markets ?s1 marketPDA
      = Some (test_market\<lparr> totalPool := 9400000, bonusPool := 500000,
          outcomes := [\<lparr> label = ''Yes'', totalAmount = 9400000, bettorCount = 1 \<rparr>,
                       \<lparr> label = ''No'', totalAmount = 0, bettorCount = 0 \<rparr>] \<rparr>)"
    (is "_ = Some ?m1")
    by (simp add: eval_defs test_defs)
  have h: "status ?m1 = Open" "30 < bettingDeadline ?m1" "1 < length (outcomes ?m1)"
    by (simp_all add: test_market_def)
  have first: "bets ?s1 (bet_address test_findPDA programKey marketPDA bettor1) \<noteq> None
      \<and> place_bet test_findPDA programKey ?s1 10 bettor1 marketPDA 0 = Inl AlreadyBet"
    using one_bet_per_bettor [where findPDA = test_findPDA and programId = programKey
        and s = test_ledger and now = 10 and caller = bettor1 and marketKey = marketPDA
        and idx = 0 and s' = ?s1] test_first_bet
    by blast
  then have later: "place_bet test_findPDA programKey ?s1 30 bettor1 marketPDA 1 = Inl AlreadyBet"
    using one_bet_per_bettor [where findPDA = test_findPDA and programId = programKey
        and s = ?s1 and now = 30 and caller = bettor1 and marketKey = marketPDA
        and idx = 1 and m = ?m1] m1 h
    by blast
  from first later init show ?thesis by blast
qed

text \<open>
  C6. The status of a market moves one way. A request that succeeds leaves the status of
  every market as it was or takes it from Open to Resolved or from Open to Cancelled; a
  market that is Resolved or Cancelled keeps that status through every sequence of
  requests. \<open>cancel_market\<close> on a Cancelled market fails, with MarketNotOpen when the
  creator calls it (another caller is turned away as Unauthorized first), and the market
  stays Cancelled.
\<close>

theorem status_one_directional:
  "(step findPDA programId s r = Inr s' \<and> markets s k = Some m \<longrightarrow>
      (\<exists>m'. markets s' k = Some m'
         \<and> (status m' = status m
              \<or> status m = Open \<and> (status m' = Resolved \<or> status m' = Cancelled))))
   \<and> (markets s k = Some m \<and> status m \<noteq> Open \<longrightarrow>
      (\<exists>m'. markets (run findPDA programId s rs) k = Some m' \<and> status m' = status m))
   \<and> (markets s k = Some m \<and> status m = Cancelled \<longrightarrow>
      isl (cancel_market s caller k)
      \<and> (caller = creator m \<longrightarrow> cancel_market s caller k = Inl MarketNotOpen)
      \<and> commit findPDA programId s (CancelMarket caller k) = s)"
proof -
  have one: "\<exists>m'. markets s' k = Some m'
         \<and> (status m' = status m
              \<or> status m = Open \<and> (status m' = Resolved \<or> status m' = Cancelled))"
    if "step findPDA programId s r = Inr s'" and "markets s k = Some m"
    using step_status [OF that] by (simp add: forward_def)
  have many: "\<exists>m'. markets (run findPDA programId s rs) k = Some m' \<and> status m' = status m"
    if "markets s k = Some m" and "status m \<noteq> Open"
    using run_status [OF that(1), of findPDA programId rs] that(2) by (auto simp: forward_def)
  show ?thesis
    using one many cancel_cancelled by blast
qed

theorem status_one_directional_witness:
  "map_option status
       (markets (run test_findPDA programKey test_ledger [CancelMarket creatorKey marketPDA]) marketPDA)
     = Some Cancelled
   \<and> cancel_market (run test_findPDA programKey test_ledger [CancelMarket creatorKey marketPDA])
       creatorKey marketPDA = Inl MarketNotOpen
   \<and> commit test_findPDA programKey
       (run test_findPDA programKey test_ledger [CancelMarket creatorKey marketPDA])
       (CancelMarket creatorKey marketPDA)
     = run test_findPDA programKey test_ledger [CancelMarket creatorKey marketPDA]
   \<and> (\<exists>m'. markets (run test_findPDA programKey
                (run test_findPDA programKey test_ledger [CancelMarket creatorKey marketPDA])
                [ResolveMarket 86400 creatorKey marketPDA 0, PlaceBet 10 bettor1 marketPDA 0])
              marketPDA = Some m' \<and> status m' = Cancelled)"
proof -
  have h: "status (test_market\<lparr> status := Cancelled \<rparr>) = Cancelled"
    "status (test_market\<lparr> status := Cancelled \<rparr>) \<noteq> Open"
    "creatorKey = creator (test_market\<lparr> status := Cancelled \<rparr>)"
    by (simp_all add: test_market_def)
  show ?thesis
    using status_one_directional [where findPDA = test_findPDA and programId = programKey
        and s = "run test_findPDA programKey test_ledger [CancelMarket creatorKey marketPDA]"
        and k = marketPDA and m = "test_market\<lparr> status := Cancelled \<rparr>"
        and caller = creatorKey
        and rs = "[ResolveMarket 86400 creatorKey marketPDA 0, PlaceBet 10 bettor1 marketPDA 0]"]
      test_cancelled h
    by (simp only: option.map simp_thms)
qed

text \<open>
  C7. A second \<open>claim_winnings\<close> or \<open>claim_refund\<close> on a Bet that is already claimed
  fails with AlreadyClaimed, whatever requests were committed after the first claim, and
  the failed call leaves the ledger (all records and all balances) as it was, so nothing
  is transferred. The same holds for a second \<open>withdraw_bet\<close>.
\<close>

theorem double_claim_rejected:
  "(markets s k = Some m \<and> status m = Resolved
      \<and> bets s (bet_address findPDA programId k caller) = Some b \<and> claimed b \<longrightarrow>
      claim_winnings findPDA programId s caller k = Inl AlreadyClaimed
      \<and> commit findPDA programId s (ClaimWinnings caller k) = s)
   \<and> (markets s k = Some m \<and> status m = Cancelled
      \<and> bets s (bet_address findPDA programId k caller) = Some b \<and> claimed b \<longrightarrow>
      claim_refund findPDA programId s caller k = Inl AlreadyClaimed
      \<and> commit findPDA programId s (ClaimRefund caller k) = s)
   \<and> (claim_winnings findPDA programId s caller k = Inr s' \<longrightarrow>
      claim_winnings findPDA programId (run findPDA programId s' rs) caller k = Inl AlreadyClaimed
      \<and> commit findPDA programId (run findPDA programId s' rs) (ClaimWinnings caller k)
          = run findPDA programId s' rs)
   \<and> (claim_refund findPDA programId s caller k = Inr s' \<longrightarrow>
      claim_refund findPDA programId (run findPDA programId s' rs) caller k = Inl AlreadyClaimed
      \<and> commit findPDA programId (run findPDA programId s' rs) (ClaimRefund caller k)
          = run findPDA programId s' rs)
   \<and> (withdraw_bet findPDA programId s now caller k = Inr s' \<longrightarrow>
      withdraw_bet findPDA programId s' now caller k = Inl AlreadyClaimed
      \<and> commit findPDA programId s' (WithdrawBet now caller k) = s')"
proof -
  have failed: "commit findPDA programId t r = t" if "step findPDA programId t r = Inl e" for t r e
    using that by (simp add: commit_def)
  have w1: "claim_winnings findPDA programId s caller k = Inl AlreadyClaimed"
    if "markets s k = Some m" "status m = Resolved"
      "bets s (bet_address findPDA programId k caller) = Some b" "claimed b"
    using that by (rule claim_winnings_claimed)
  have r1: "claim_refund findPDA programId s caller k = Inl AlreadyClaimed"
    if "markets s k = Some m" "status m = Cancelled"
      "bets s (bet_address findPDA programId k caller) = Some b" "claimed b"
    using that by (rule claim_refund_claimed)
  have w2: "claim_winnings findPDA programId (run findPDA programId s' rs) caller k = Inl AlreadyClaimed"
    if "claim_winnings findPDA programId s caller k = Inr s'"
    using that by (rule claim_winnings_again)
  have r2: "claim_refund findPDA programId (run findPDA programId s' rs) caller k = Inl AlreadyClaimed"
    if "claim_refund findPDA programId s caller k = Inr s'"
    using that by (rule claim_refund_again)
  have d: "withdraw_bet findPDA programId s' now caller k = Inl AlreadyClaimed"
    if "withdraw_bet findPDA programId s now caller k = Inr s'"
    using that by (rule withdraw_bet_twice)
  show ?thesis
    using w1 r1 w2 r2 d
      failed [of s "ClaimWinnings caller k"] failed [of s "ClaimRefund caller k"]
      failed [of "run findPDA programId s' rs" "ClaimWinnings caller k"]
      failed [of "run findPDA programId s' rs" "ClaimRefund caller k"]
      failed [of s' "WithdrawBet now caller k"]
    by (simp only: step.simps) blast
qed

theorem double_claim_rejected_witness:
  "claim_winnings test_findPDA programKey
       (run test_findPDA programKey scenario_B [ClaimWinnings bettor1 marketPDA])
       bettor1 marketPDA = Inl AlreadyClaimed
   \<and> commit test_findPDA programKey
       (run test_findPDA programKey scenario_B [ClaimWinnings bettor1 marketPDA])
       (ClaimWinnings bettor1 marketPDA)
     = run test_findPDA programKey scenario_B [ClaimWinnings bettor1 marketPDA]
   \<and> claim_refund test_findPDA programKey
       (run test_findPDA programKey scenario_cancelled [ClaimRefund bettor1 marketPDA])
       bettor1 marketPDA = Inl AlreadyClaimed
   \<and> commit test_findPDA programKey
       (run test_findPDA programKey scenario_cancelled [ClaimRefund bettor1 marketPDA])
       (ClaimRefund bettor1 marketPDA)
     = run test_findPDA programKey scenario_cancelled [ClaimRefund bettor1 marketPDA]"
proof -
  have nil: "run test_findPDA programKey t [] = t" for t
    by (simp add: run_def)
  show ?thesis
    using double_claim_rejected [where findPDA = test_findPDA and programId = programKey
        and s = scenario_B and caller = bettor1 and k = marketPDA and rs = "[]"
        and s' = "run test_findPDA programKey scenario_B [ClaimWinnings bettor1 marketPDA]"]
      double_claim_rejected [where findPDA = test_findPDA and programId = programKey
        and s = scenario_cancelled and caller = bettor1 and k = marketPDA and rs = "[]"
        and s' = "run test_findPDA programKey scenario_cancelled [ClaimRefund bettor1 marketPDA]"]
      test_first_claim test_first_refund
    unfolding nil by blast
qed

end
